theory Spec2Isabelle
  imports Complex_Main "HOL-Library.AList"
begin

section \<open>JavaScript values\<close>

text \<open>
  The service in \<^verbatim>\<open>data-store.service.ts\<close> handles cells of type
  \<^verbatim>\<open>string | number | boolean | Date | null\<close> on the write path and values of type
  \<^verbatim>\<open>unknown\<close> on the read path. A number is NaN, an infinity or the rational a finite
  double denotes; the two zeros denote the same rational, as \<^verbatim>\<open>===\<close>, \<^verbatim>\<open>typeof\<close>,
  \<^verbatim>\<open>isNaN\<close>, \<^verbatim>\<open>String\<close> and \<^verbatim>\<open>new Date\<close> (all the service applies to numbers) do
  not tell them apart. A \<^verbatim>\<open>Date\<close> holds a time value: milliseconds since the epoch, or
  NaN for an invalid date. \<open>JSObject\<close> stands for any other object, by identity.
\<close>

datatype jsnum = NaN | PosInfinity | NegInfinity | Finite rat

datatype jsdate = InvalidDate | DateAt int

datatype jsval =
    JSUndefined
  | JSNull
  | JSBool bool
  | JSNum jsnum
  | JSStr string
  | JSDate jsdate
  | JSObject nat

fun typeof :: "jsval \<Rightarrow> string" where
  "typeof JSUndefined = ''undefined''"
| "typeof JSNull = ''object''"
| "typeof (JSBool b) = ''boolean''"
| "typeof (JSNum n) = ''number''"
| "typeof (JSStr s) = ''string''"
| "typeof (JSDate d) = ''object''"
| "typeof (JSObject a) = ''object''"

fun instanceofDate :: "jsval \<Rightarrow> bool" where
  "instanceofDate (JSDate d) = True"
| "instanceofDate v = False"

fun isNaN :: "jsnum \<Rightarrow> bool" where
  "isNaN NaN = True"
| "isNaN n = False"

fun getTime :: "jsdate \<Rightarrow> jsnum" where
  "getTime InvalidDate = NaN"
| "getTime (DateAt t) = Finite (of_int t)"

text \<open>
  \<open>TimeClip\<close> of ECMA-262: the time value of \<^verbatim>\<open>new Date(n)\<close>. A number that is not
  finite or lies beyond 8.64e15 ms gives an invalid date; any other is truncated towards
  zero.
\<close>

fun timeClip :: "jsnum \<Rightarrow> jsdate" where
  "timeClip (Finite q) =
     (if \<bar>q\<bar> > 8640000000000000 then InvalidDate
      else DateAt (if q \<ge> 0 then \<lfloor>q\<rfloor> else \<lceil>q\<rceil>))"
| "timeClip n = InvalidDate"

text \<open>
  The built-ins the service calls and whose results the language leaves to the
  implementation, or defines by algorithms outside this development, are parameters:
  \<^verbatim>\<open>Date.prototype.toISOString\<close> on a valid time value, \<^verbatim>\<open>Date.parse\<close>,
  \<^verbatim>\<open>Number(v)\<close> and \<^verbatim>\<open>String(v)\<close>.
\<close>

type_synonym isoPrinter = "int \<Rightarrow> string"

record runtime =
  Date_parse :: "string \<Rightarrow> jsnum"
  Number_of :: "jsval \<Rightarrow> jsnum"
  String_of :: "jsval \<Rightarrow> string"

text \<open>The exceptions of the service: its own \<^verbatim>\<open>UserError\<close>s, and the runtime's.\<close>

datatype DataStoreColumnType = TBoolean | TDate | TString | TNumber

datatype userError =
    NoColumnsFound
  | MismatchedKeyCount
  | UnknownColumnName
  | TypeMismatch jsval DataStoreColumnType
  | NameAlreadyExists string

datatype exn = UserError userError | TypeError | RangeError

text \<open>\<^verbatim>\<open>new Date(value)\<close> for a string or a number.\<close>

fun newDate :: "runtime \<Rightarrow> jsval \<Rightarrow> jsdate" where
  "newDate rt (JSStr s) = timeClip (Date_parse rt s)"
| "newDate rt (JSNum n) = timeClip n"
| "newDate rt v = InvalidDate"

text \<open>\<^verbatim>\<open>cell.toISOString()\<close>: a \<^verbatim>\<open>RangeError\<close> on an invalid date.\<close>

fun toISOString :: "isoPrinter \<Rightarrow> jsdate \<Rightarrow> exn + string" where
  "toISOString isoStr InvalidDate = Inl RangeError"
| "toISOString isoStr (DateAt t) = Inr (isoStr t)"

section \<open>Columns and rows\<close>

record DataStoreColumn =
  name :: string
  type :: DataStoreColumnType

text \<open>
  A row is an object: its own properties in enumeration order, no key twice.
  \<^verbatim>\<open>row[key]\<close> of an absent key is \<^verbatim>\<open>undefined\<close>; an assignment to a present key
  keeps its place.
\<close>

type_synonym row = "(string \<times> jsval) list"

definition wf_row :: "row \<Rightarrow> bool" where
  "wf_row row = distinct (map fst row)"

definition keys :: "row \<Rightarrow> string list" where
  "keys row = map fst row"

definition getProp :: "row \<Rightarrow> string \<Rightarrow> jsval" where
  "getProp row key = (case map_of row key of None \<Rightarrow> JSUndefined | Some v \<Rightarrow> v)"

definition setProp :: "row \<Rightarrow> string \<Rightarrow> jsval \<Rightarrow> row" where
  "setProp row key v = AList.update key v row"

text \<open>
  \<^verbatim>\<open>new Map(columns.map((col) => [col.name, col.type]))\<close>: entries are set in order, a
  later one replaces an earlier one of the same name.
\<close>

definition typeMap :: "DataStoreColumn list \<Rightarrow> string \<Rightarrow> DataStoreColumnType option" where
  "typeMap columns = fold (\<lambda>col m. m(name col \<mapsto> type col)) columns Map.empty"

section \<open>The read path: normalization\<close>

definition normalizeBoolean :: "jsval \<Rightarrow> jsval" where
  "normalizeBoolean value =
     (if typeof value = ''boolean'' then value
      else if value = JSNum (Finite 1) \<or> value = JSStr ''1'' then JSBool True
      else if value = JSNum (Finite 0) \<or> value = JSStr ''0'' then JSBool False
      else JSNull)"

definition normalizeDate :: "runtime \<Rightarrow> jsval \<Rightarrow> jsval" where
  "normalizeDate rt value =
     (if value = JSNull \<or> value = JSUndefined then JSNull
      else if instanceofDate value then value
      else if (typeof value = ''string'' \<or> typeof value = ''number'')
              \<and> \<not> isNaN (getTime (newDate rt value))
        then JSDate (newDate rt value)
      else JSNull)"

definition normalizeString :: "runtime \<Rightarrow> jsval \<Rightarrow> jsval" where
  "normalizeString rt value =
     (if value = JSNull \<or> value = JSUndefined then JSNull
      else if typeof value = ''string'' then value
      else JSStr (String_of rt value))"

definition normalizeNumber :: "runtime \<Rightarrow> jsval \<Rightarrow> jsval" where
  "normalizeNumber rt value =
     (if value = JSNull \<or> value = JSUndefined then JSNull
      else if typeof value = ''number'' then value
      else (let num = Number_of rt value in if isNaN num then JSNull else JSNum num))"

text \<open>The \<^verbatim>\<open>switch (type)\<close> of \<^verbatim>\<open>normalizeRows\<close>, with its default branch.\<close>

fun normalizeValue :: "runtime \<Rightarrow> DataStoreColumnType option \<Rightarrow> jsval \<Rightarrow> jsval" where
  "normalizeValue rt (Some TBoolean) value = normalizeBoolean value"
| "normalizeValue rt (Some TDate) value = normalizeDate rt value"
| "normalizeValue rt (Some TString) value = normalizeString rt value"
| "normalizeValue rt (Some TNumber) value = normalizeNumber rt value"
| "normalizeValue rt None value = value"

text \<open>
  One row: \<open>normalized\<close> starts as a copy of the row, and the loop over
  \<^verbatim>\<open>Object.entries(row)\<close> assigns each key its normalized value.
\<close>

definition normalizeRow :: "runtime \<Rightarrow> (string \<Rightarrow> DataStoreColumnType option) \<Rightarrow> row \<Rightarrow> row" where
  "normalizeRow rt tm row =
     fold (\<lambda>(key, value) normalized. setProp normalized key (normalizeValue rt (tm key) value))
       row row"

definition normalizeRows :: "runtime \<Rightarrow> row list \<Rightarrow> DataStoreColumn list \<Rightarrow> row list" where
  "normalizeRows rt rows columns = map (normalizeRow rt (typeMap columns)) rows"

section \<open>The write path: validation\<close>

text \<open>
  The rows of a batch are objects the caller holds: a batch is a list of references, and
  the heap gives the object behind each. \<^verbatim>\<open>validateRows\<close> assigns to these objects.
\<close>

type_synonym ref = nat

type_synonym heap = "ref \<Rightarrow> row"

text \<open>
  The collaborators of the row operations are not part of the service's file and are
  parameters: the column repository's \<^verbatim>\<open>getColumns\<close>, \<^verbatim>\<open>toTableName\<close>, and the row
  repository's \<^verbatim>\<open>insertRows\<close> and \<^verbatim>\<open>upsertRows\<close>, over a database state \<open>'db\<close>.
  The row repository receives the rows as they are after validation; what an upsert
  carries besides its rows is of type \<open>'dto\<close>.
\<close>

record ('db, 'dto, 'res) collaborators =
  getColumns :: "'db \<Rightarrow> string \<Rightarrow> DataStoreColumn list"
  toTableName :: "string \<Rightarrow> string"
  repo_insertRows :: "string \<Rightarrow> row list \<Rightarrow> DataStoreColumn list \<Rightarrow> 'db \<Rightarrow> 'res \<times> 'db"
  repo_upsertRows :: "string \<Rightarrow> row list \<times> 'dto \<Rightarrow> DataStoreColumn list \<Rightarrow> 'db \<Rightarrow> 'res \<times> 'db"

text \<open>
  \<^verbatim>\<open>cell.toString()\<close> inside the message of a type mismatch: a \<^verbatim>\<open>TypeError\<close> when
  the cell is \<^verbatim>\<open>undefined\<close>. The error carries the offending value and the expected type,
  which the message names.
\<close>

definition mismatch_toString :: "jsval \<Rightarrow> DataStoreColumnType \<Rightarrow> exn" where
  "mismatch_toString cell t =
     (if cell = JSUndefined then TypeError else UserError (TypeMismatch cell t))"

text \<open>The \<^verbatim>\<open>switch (columnTypeMap.get(key))\<close> on a cell that is not \<^verbatim>\<open>null\<close>.\<close>

fun checkCell ::
  "isoPrinter \<Rightarrow> DataStoreColumnType option \<Rightarrow> row \<Rightarrow> string \<Rightarrow> jsval \<Rightarrow> exn + row" where
  "checkCell isoStr (Some TBoolean) row key cell =
     (if typeof cell \<noteq> ''boolean'' then Inl (mismatch_toString cell TBoolean) else Inr row)"
| "checkCell isoStr (Some TDate) row key cell =
     (if \<not> instanceofDate cell then Inl (UserError (TypeMismatch cell TDate))
      else (case cell of
              JSDate d \<Rightarrow>
                (case toISOString isoStr d of
                   Inl e \<Rightarrow> Inl e
                 | Inr s \<Rightarrow> Inr (setProp row key (JSStr s)))
            | _ \<Rightarrow> Inr row))"
| "checkCell isoStr (Some TString) row key cell =
     (if typeof cell \<noteq> ''string'' then Inl (mismatch_toString cell TString) else Inr row)"
| "checkCell isoStr (Some TNumber) row key cell =
     (if typeof cell \<noteq> ''number'' then Inl (mismatch_toString cell TNumber) else Inr row)"
| "checkCell isoStr None row key cell = Inr row"

text \<open>The body of \<^verbatim>\<open>for (const key of keys)\<close>.\<close>

definition validateKey :: "isoPrinter \<Rightarrow> DataStoreColumn list \<Rightarrow> row \<Rightarrow> string \<Rightarrow> exn + row" where
  "validateKey isoStr columns row key =
     (if key \<notin> set (map name columns) then Inl (UserError UnknownColumnName)
      else (let cell = getProp row key in
            if cell = JSNull then Inr row
            else checkCell isoStr (typeMap columns key) row key cell))"

text \<open>
  The loop over the keys: it stops at the first exception, and the row keeps the
  assignments made so far.
\<close>

fun validateKeys ::
  "isoPrinter \<Rightarrow> DataStoreColumn list \<Rightarrow> string list \<Rightarrow> row \<Rightarrow> (exn + unit) \<times> row" where
  "validateKeys isoStr columns [] row = (Inr (), row)"
| "validateKeys isoStr columns (key # ks) row =
     (case validateKey isoStr columns row key of
        Inl e \<Rightarrow> (Inl e, row)
      | Inr row' \<Rightarrow> validateKeys isoStr columns ks row')"

text \<open>The body of \<^verbatim>\<open>for (const row of rows)\<close>.\<close>

definition validateRow :: "isoPrinter \<Rightarrow> DataStoreColumn list \<Rightarrow> row \<Rightarrow> (exn + unit) \<times> row" where
  "validateRow isoStr columns row =
     (if length columns \<noteq> length (keys row) then (Inl (UserError MismatchedKeyCount), row)
      else validateKeys isoStr columns (keys row) row)"

fun validateBatch ::
  "isoPrinter \<Rightarrow> DataStoreColumn list \<Rightarrow> ref list \<Rightarrow> heap \<Rightarrow> (exn + unit) \<times> heap" where
  "validateBatch isoStr columns [] h = (Inr (), h)"
| "validateBatch isoStr columns (r # rs) h =
     (case validateRow isoStr columns (h r) of
        (Inl e, row') \<Rightarrow> (Inl e, h(r := row'))
      | (Inr u, row') \<Rightarrow> validateBatch isoStr columns rs (h(r := row')))"

definition validateRows ::
  "isoPrinter \<Rightarrow> ('db, 'dto, 'res) collaborators \<Rightarrow> 'db \<Rightarrow> string \<Rightarrow> ref list \<Rightarrow> heap
     \<Rightarrow> (exn + unit) \<times> heap" where
  "validateRows isoStr co db dataStoreId rows h =
     (let columns = getColumns co db dataStoreId in
      if length columns = 0 then (Inl (UserError NoColumnsFound), h)
      else validateBatch isoStr columns rows h)"

text \<open>
  \<^verbatim>\<open>insertRows\<close> and \<^verbatim>\<open>upsertRows\<close>: an exception of \<^verbatim>\<open>validateRows\<close> leaves before
  the row repository is called. The result is the exception or the repository's result,
  with the heap and the database state after the call.
\<close>

definition insertRows ::
  "isoPrinter \<Rightarrow> ('db, 'dto, 'res) collaborators \<Rightarrow> string \<Rightarrow> ref list \<Rightarrow> heap \<times> 'db
     \<Rightarrow> (exn + 'res) \<times> heap \<times> 'db" where
  "insertRows isoStr co dataStoreId rows s =
     (case s of (h, db) \<Rightarrow>
       (case validateRows isoStr co db dataStoreId rows h of
          (Inl e, h') \<Rightarrow> (Inl e, h', db)
        | (Inr u, h') \<Rightarrow>
            (let columns = getColumns co db dataStoreId;
                 (res, db') = repo_insertRows co (toTableName co dataStoreId) (map h' rows) columns db
             in (Inr res, h', db'))))"

definition upsertRows ::
  "isoPrinter \<Rightarrow> ('db, 'dto, 'res) collaborators \<Rightarrow> string \<Rightarrow> ref list \<times> 'dto \<Rightarrow> heap \<times> 'db
     \<Rightarrow> (exn + 'res) \<times> heap \<times> 'db" where
  "upsertRows isoStr co dataStoreId dto s =
     (case s of (h, db) \<Rightarrow>
       (case validateRows isoStr co db dataStoreId (fst dto) h of
          (Inl e, h') \<Rightarrow> (Inl e, h', db)
        | (Inr u, h') \<Rightarrow>
            (let columns = getColumns co db dataStoreId;
                 (res, db') = repo_upsertRows co (toTableName co dataStoreId)
                                (map h' (fst dto), snd dto) columns db
             in (Inr res, h', db'))))"

section \<open>Creating a data store\<close>

record DataStore =
  store_id :: string
  store_name :: string
  projectId :: string

record 'c CreateDataStoreDto =
  dto_name :: string
  dto_columns :: 'c

text \<open>
  The data store repository over its database state: the entities it holds, and its
  \<^verbatim>\<open>createDataStore\<close>.
\<close>

record ('db, 'c, 'res) dataStoreRepository =
  entities :: "'db \<Rightarrow> DataStore list"
  repo_createDataStore :: "string \<Rightarrow> string \<Rightarrow> 'c \<Rightarrow> 'db \<Rightarrow> 'res \<times> 'db"

text \<open>
  Modelled from the spec: the repository's \<^verbatim>\<open>findOneBy({ name, projectId })\<close> is not part
  of the service's file. The specification lists it as \<open>findByName+project\<close> of the
  metadata collaborator: an entity with that name in that project, or \<^verbatim>\<open>null\<close>.
\<close>

definition findOneBy_name_projectId ::
  "('db, 'c, 'res) dataStoreRepository \<Rightarrow> 'db \<Rightarrow> string \<Rightarrow> string \<Rightarrow> DataStore option" where
  "findOneBy_name_projectId repo db n p =
     find (\<lambda>e. store_name e = n \<and> projectId e = p) (entities repo db)"

definition createDataStore ::
  "('db, 'c, 'res) dataStoreRepository \<Rightarrow> string \<Rightarrow> 'c CreateDataStoreDto \<Rightarrow> 'db
     \<Rightarrow> (exn + 'res) \<times> 'db" where
  "createDataStore repo pid dto db =
     (let existingTable = findOneBy_name_projectId repo db (dto_name dto) pid in
      if existingTable \<noteq> None then (Inl (UserError (NameAlreadyExists (dto_name dto))), db)
      else (case repo_createDataStore repo pid (dto_name dto) (dto_columns dto) db of
              (res, db') \<Rightarrow> (Inr res, db')))"

section \<open>A runtime to run the model on\<close>

text \<open>
  \<^verbatim>\<open>Date.prototype.toISOString\<close> as ECMA-262 defines it: the UTC date and time of a time
  value as \<^verbatim>\<open>YYYY-MM-DDTHH:mm:ss.sssZ\<close>, the year with a sign and six digits outside
  0..9999. \<open>DayFromYear\<close> is the standard's: the day number of the first day of a year.
  The year of a day is the largest \<open>y\<close> with \<open>DayFromYear y\<close> not after the day; it is
  found from an estimate (a year has 146097/400 days on average) that is then corrected
  by at most one year. The month and the day of the month come from the day within the
  year by the standard's table.
\<close>

fun pad :: "nat \<Rightarrow> int \<Rightarrow> string" where
  "pad 0 n = []"
| "pad (Suc w) n = pad w (n div 10) @ [''0123456789'' ! nat (n mod 10)]"

definition DayFromYear :: "int \<Rightarrow> int" where
  "DayFromYear y =
     365 * (y - 1970) + (y - 1969) div 4 - (y - 1901) div 100 + (y - 1601) div 400"

definition YearFromDay :: "int \<Rightarrow> int" where
  "YearFromDay day =
     (let est = 1970 + (400 * day) div 146097 in
      if DayFromYear (est + 1) \<le> day then est + 1
      else if DayFromYear est \<le> day then est
      else est - 1)"

definition InLeapYear :: "int \<Rightarrow> int" where
  "InLeapYear y = (if (y mod 4 = 0 \<and> y mod 100 \<noteq> 0) \<or> y mod 400 = 0 then 1 else 0)"

text \<open>The day within the year on which month \<open>m\<close> (1 to 12) starts, \<open>L\<close> being 1 in a leap year.\<close>

definition monthStart :: "int \<Rightarrow> int \<Rightarrow> int" where
  "monthStart L m =
     (if m = 1 then 0 else if m = 2 then 31 else if m = 3 then 59 + L
      else if m = 4 then 90 + L else if m = 5 then 120 + L else if m = 6 then 151 + L
      else if m = 7 then 181 + L else if m = 8 then 212 + L else if m = 9 then 243 + L
      else if m = 10 then 273 + L else if m = 11 then 304 + L else 334 + L)"

definition MonthFromDay :: "int \<Rightarrow> int \<Rightarrow> int" where
  "MonthFromDay L dwy =
     (if dwy < 31 then 1 else if dwy < 59 + L then 2 else if dwy < 90 + L then 3
      else if dwy < 120 + L then 4 else if dwy < 151 + L then 5 else if dwy < 181 + L then 6
      else if dwy < 212 + L then 7 else if dwy < 243 + L then 8 else if dwy < 273 + L then 9
      else if dwy < 304 + L then 10 else if dwy < 334 + L then 11 else 12)"

definition civil_from_days :: "int \<Rightarrow> int \<times> int \<times> int" where
  "civil_from_days day =
     (let y = YearFromDay day;
          L = InLeapYear y;
          dwy = day - DayFromYear y;
          m = MonthFromDay L dwy
      in (y, m, dwy - monthStart L m + 1))"

text \<open>\<open>MakeDay\<close>: the day number of a year, month and day of the month.\<close>

definition days_from_civil :: "int \<Rightarrow> int \<Rightarrow> int \<Rightarrow> int" where
  "days_from_civil y m d = DayFromYear y + monthStart (InLeapYear y) m + d - 1"

definition isoString_ecma :: isoPrinter where
  "isoString_ecma t =
     (let ms = t mod 86400000;
          (y, m, d) = civil_from_days (t div 86400000);
          year = (if 0 \<le> y \<and> y \<le> 9999 then pad 4 y
                  else (if y < 0 then ''-'' else ''+'') @ pad 6 \<bar>y\<bar>)
      in year @ ''-'' @ pad 2 m @ ''-'' @ pad 2 d @ ''T''
           @ pad 2 (ms div 3600000) @ '':'' @ pad 2 (ms div 60000 mod 60) @ '':''
           @ pad 2 (ms div 1000 mod 60) @ ''.'' @ pad 3 (ms mod 1000) @ ''Z'')"

text \<open>
  \<^verbatim>\<open>Date.parse\<close> on the strings \<^verbatim>\<open>toISOString\<close> prints: the full date-time form in
  UTC, a date that does not exist (the 30th of February, a month 13) being NaN. Any
  other string reads as NaN here; an implementation parses more; the round trip below reads back only what
  \<^verbatim>\<open>toISOString\<close> printed.
\<close>

definition digit :: "char \<Rightarrow> int option" where
  "digit c = map_of (zip ''0123456789'' [0, 1, 2, 3, 4, 5, 6, 7, 8, 9]) c"

fun digits :: "int \<Rightarrow> string \<Rightarrow> int option" where
  "digits acc [] = Some acc"
| "digits acc (c # cs) =
     (case digit c of None \<Rightarrow> None | Some v \<Rightarrow> digits (10 * acc + v) cs)"

definition parse_fields :: "int \<Rightarrow> string \<Rightarrow> jsnum" where
  "parse_fields y s =
     (case (digits 0 (take 2 (drop 1 s)), digits 0 (take 2 (drop 4 s)),
            digits 0 (take 2 (drop 7 s)), digits 0 (take 2 (drop 10 s)),
            digits 0 (take 2 (drop 13 s)), digits 0 (take 3 (drop 16 s))) of
        (Some m, Some d, Some hh, Some mm, Some ss, Some ms) \<Rightarrow>
          (if map (\<lambda>i. s ! i) [0, 3, 6, 9, 12, 15, 19] = ''--T::.Z''
              \<and> civil_from_days (days_from_civil y m d) = (y, m, d)
              \<and> hh \<le> 23 \<and> mm \<le> 59 \<and> ss \<le> 59
           then Finite (of_int (days_from_civil y m d * 86400000 + hh * 3600000
                                 + mm * 60000 + ss * 1000 + ms))
           else NaN)
      | _ \<Rightarrow> NaN)"

definition parse_isoString :: "string \<Rightarrow> jsnum" where
  "parse_isoString s =
     (if length s = 24 then
        (case digits 0 (take 4 s) of None \<Rightarrow> NaN | Some y \<Rightarrow> parse_fields y (drop 4 s))
      else if length s = 27 \<and> (hd s = CHR ''+'' \<or> hd s = CHR ''-'') then
        (case digits 0 (take 6 (tl s)) of
           None \<Rightarrow> NaN
         | Some y \<Rightarrow>
             (if hd s = CHR ''-'' \<and> y = 0 then NaN
              else parse_fields (if hd s = CHR ''-'' then - y else y) (drop 7 s)))
      else NaN)"

section \<open>Cells and rows in the statements\<close>

text \<open>
  A cell is native for a column type when its runtime type is the one declared: a
  boolean, a \<^verbatim>\<open>Date\<close> (valid or not), a string, a number.
\<close>

fun native :: "DataStoreColumnType \<Rightarrow> jsval \<Rightarrow> bool" where
  "native TBoolean (JSBool b) = True"
| "native TDate (JSDate d) = True"
| "native TString (JSStr s) = True"
| "native TNumber (JSNum n) = True"
| "native t v = False"

text \<open>
  A row is canonical for a schema when each cell under a declared column is
  \<^verbatim>\<open>null\<close> or native for the column's type.
\<close>

definition canonicalRow :: "DataStoreColumn list \<Rightarrow> row \<Rightarrow> bool" where
  "canonicalRow columns row =
     list_all (\<lambda>(k, v). case typeMap columns k of
                            None \<Rightarrow> True
                          | Some t \<Rightarrow> v = JSNull \<or> native t v) row"

text \<open>
  A cell the validator lets through: \<^verbatim>\<open>null\<close>, or native for the column's type, a date
  being a valid one.
\<close>

fun accepted :: "DataStoreColumnType \<Rightarrow> jsval \<Rightarrow> bool" where
  "accepted t JSNull = True"
| "accepted TDate (JSDate InvalidDate) = False"
| "accepted t v = native t v"

text \<open>A key of a row that names a declared column and holds an accepted cell.\<close>

definition acceptedKey :: "DataStoreColumn list \<Rightarrow> row \<Rightarrow> string \<Rightarrow> bool" where
  "acceptedKey columns row k =
     (case typeMap columns k of None \<Rightarrow> False | Some t \<Rightarrow> accepted t (getProp row k))"

text \<open>
  The stored form of a row: each date held under a date column is replaced by its
  ISO-8601 string, every other cell is as it was. \<open>storedKeys\<close> does so for the cells
  under the keys of a set only.
\<close>

fun storedCell :: "isoPrinter \<Rightarrow> DataStoreColumnType option \<Rightarrow> jsval \<Rightarrow> jsval" where
  "storedCell isoStr (Some TDate) (JSDate (DateAt t)) = JSStr (isoStr t)"
| "storedCell isoStr t v = v"

definition storedRow :: "isoPrinter \<Rightarrow> DataStoreColumn list \<Rightarrow> row \<Rightarrow> row" where
  "storedRow isoStr columns row =
     map (\<lambda>(k, v). (k, storedCell isoStr (typeMap columns k) v)) row"

definition storedKeys :: "isoPrinter \<Rightarrow> DataStoreColumn list \<Rightarrow> string set \<Rightarrow> row \<Rightarrow> row" where
  "storedKeys isoStr columns K row =
     map (\<lambda>(k, v). (k, if k \<in> K then storedCell isoStr (typeMap columns k) v else v)) row"

text \<open>The heap in which the rows behind a set of references have their stored form.\<close>

definition storedHeap :: "isoPrinter \<Rightarrow> DataStoreColumn list \<Rightarrow> ref set \<Rightarrow> heap \<Rightarrow> heap" where
  "storedHeap isoStr columns R h = (\<lambda>x. if x \<in> R then storedRow isoStr columns (h x) else h x)"

text \<open>
  What the specification asks of a row before a write: its keys are exactly the schema's
  column names (\<open>hasSchemaKeys\<close>), and each cell is \<^verbatim>\<open>null\<close> or native for its column's
  type (\<open>canonicalRow\<close>). \<open>validDates\<close>: no cell is an invalid \<^verbatim>\<open>Date\<close>.
\<close>

definition hasSchemaKeys :: "DataStoreColumn list \<Rightarrow> row \<Rightarrow> bool" where
  "hasSchemaKeys columns row = (set (keys row) = set (map name columns))"

definition validDates :: "row \<Rightarrow> bool" where
  "validDates row = list_all (\<lambda>(k, v). v \<noteq> JSDate InvalidDate) row"

section \<open>Example data\<close>

text \<open>
  The store \<open>orders\<close> of the specification's scenarios, with a date and a string column
  added.
\<close>

definition orders_columns :: "DataStoreColumn list" where
  "orders_columns =
     [\<lparr>name = ''paid'', type = TBoolean\<rparr>, \<lparr>name = ''total'', type = TNumber\<rparr>,
      \<lparr>name = ''at'', type = TDate\<rparr>, \<lparr>name = ''note'', type = TString\<rparr>]"

text \<open>A row as a storage engine may return it: the boolean as \<open>1\<close>, the date as text.\<close>

definition raw_row :: row where
  "raw_row =
     [(''paid'', JSNum (Finite 1)), (''total'', JSNum (Finite 10)),
      (''at'', JSStr ''2023-11-14T22:13:20.123Z''), (''note'', JSNull)]"

definition canonical_row :: row where
  "canonical_row =
     [(''paid'', JSBool True), (''total'', JSNum (Finite 10)),
      (''at'', JSDate (DateAt 1700000000123)), (''note'', JSStr ''first'')]"

text \<open>The heap that holds the rows of a list at the references 0, 1, 2 and so on.\<close>

definition heap_of :: "row list \<Rightarrow> heap" where
  "heap_of rows = (\<lambda>r. if r < length rows then rows ! r else [])"

text \<open>
  Collaborators to run the examples on: the database is the list of the writes made,
  the store \<open>orders\<close> has the columns above and no other store has any.
\<close>

definition orders_co :: "((string \<times> row list) list, string list, nat) collaborators" where
  "orders_co =
     \<lparr>getColumns = (\<lambda>db sid. if sid = ''orders'' then orders_columns else []),
      toTableName = (\<lambda>sid. ''table_'' @ sid),
      repo_insertRows = (\<lambda>table rows columns db. (length rows, db @ [(table, rows)])),
      repo_upsertRows = (\<lambda>table dto columns db. (length (fst dto), db @ [(table, fst dto)]))\<rparr>"

definition invalid_date_row :: row where
  "invalid_date_row =
     [(''paid'', JSBool True), (''total'', JSNum (Finite 10)),
      (''at'', JSDate InvalidDate), (''note'', JSStr ''first'')]"

definition stored_row :: row where
  "stored_row =
     [(''paid'', JSBool True), (''total'', JSNum (Finite 10)),
      (''at'', JSStr ''2023-11-14T22:13:20.123Z''), (''note'', JSStr ''first'')]"

definition null_row :: row where
  "null_row = [(''total'', JSNull), (''paid'', JSNull), (''note'', JSNull), (''at'', JSNull)]"

text \<open>The row \<open>{paid: "yes", total: 10}\<close> of the specification's scenario.\<close>

definition yes_row :: row where
  "yes_row =
     [(''paid'', JSStr ''yes''), (''total'', JSNum (Finite 10)), (''at'', JSNull),
      (''note'', JSNull)]"

definition short_row :: row where
  "short_row = [(''paid'', JSBool True), (''total'', JSNum (Finite 10))]"

definition extra_key_row :: row where
  "extra_key_row =
     [(''paid'', JSBool True), (''total'', JSNum (Finite 10)), (''at'', JSNull),
      (''note'', JSNull), (''bogus'', JSNull)]"

definition renamed_key_row :: row where
  "renamed_key_row =
     [(''paid'', JSBool True), (''amount'', JSNum (Finite 10)), (''at'', JSNull),
      (''note'', JSNull)]"

definition yes_renamed_row :: row where
  "yes_renamed_row =
     [(''paid'', JSStr ''yes''), (''amount'', JSNum (Finite 10)), (''at'', JSNull),
      (''note'', JSNull)]"

definition one_row :: row where
  "one_row =
     [(''paid'', JSNum (Finite 1)), (''total'', JSNum (Finite 10)), (''at'', JSNull),
      (''note'', JSNull)]"

text \<open>
  A data store repository to run the examples on: the database is the list of the
  entities, and creating one appends it.
\<close>

definition list_repo :: "(DataStore list, DataStoreColumn list, DataStore) dataStoreRepository" where
  "list_repo =
     \<lparr>entities = (\<lambda>db. db),
      repo_createDataStore = (\<lambda>pid n columns db.
        (\<lparr>store_id = pid @ ''/'' @ n, store_name = n, projectId = pid\<rparr>,
         db @ [\<lparr>store_id = pid @ ''/'' @ n, store_name = n, projectId = pid\<rparr>]))\<rparr>"

definition orders_dto :: "DataStoreColumn list CreateDataStoreDto" where
  "orders_dto =
     \<lparr>dto_name = ''orders'',
      dto_columns = [\<lparr>name = ''paid'', type = TBoolean\<rparr>, \<lparr>name = ''total'', type = TNumber\<rparr>]\<rparr>"

definition orders_P1 :: DataStore where
  "orders_P1 = \<lparr>store_id = ''P1/orders'', store_name = ''orders'', projectId = ''P1''\<rparr>"

definition orders_P2 :: DataStore where
  "orders_P2 = \<lparr>store_id = ''P2/orders'', store_name = ''orders'', projectId = ''P2''\<rparr>"

definition late_fail_row :: row where
  "late_fail_row =
     [(''at'', JSDate (DateAt 0)), (''paid'', JSStr ''yes''), (''total'', JSNull),
      (''note'', JSNull)]"

definition late_fail_row_after :: row where
  "late_fail_row_after =
     [(''at'', JSStr ''1970-01-01T00:00:00.000Z''), (''paid'', JSStr ''yes''), (''total'', JSNull),
      (''note'', JSNull)]"

definition failing_batch :: heap where
  "failing_batch = heap_of [canonical_row, late_fail_row]"

text \<open>
  A runtime with the \<open>Date.parse\<close> above; \<open>Number\<close> and \<open>String\<close> are left open.
\<close>

definition ecma :: "(jsval \<Rightarrow> jsnum) \<Rightarrow> (jsval \<Rightarrow> string) \<Rightarrow> runtime" where
  "ecma num str = \<lparr>Date_parse = parse_isoString, Number_of = num, String_of = str\<rparr>"

definition validated_batch :: heap where
  "validated_batch =
     snd (validateRows isoString_ecma orders_co [] ''orders'' [0] (heap_of [canonical_row]))"

section \<open>Objects and the type map\<close>

lemma update_mid:
  "k \<notin> fst ` set xs \<Longrightarrow> AList.update k v (xs @ (k, w) # ys) = xs @ (k, v) # ys"
  by (induction xs) auto

lemma fold_setProp_entries:
  assumes "distinct (map fst todo)" and "fst ` set pre \<inter> fst ` set todo = {}"
  shows "fold (\<lambda>(key, value) normalized. setProp normalized key (g key value)) todo (pre @ todo)
         = pre @ map (\<lambda>(k, v). (k, g k v)) todo"
  using assms
proof (induction todo arbitrary: pre)
  case Nil
  then show ?case by simp
next
  case (Cons p todo)
  obtain k v where p: "p = (k, v)" by (cases p)
  from Cons.prems p have k_pre: "k \<notin> fst ` set pre" and k_todo: "k \<notin> fst ` set todo"
    and d: "distinct (map fst todo)" by auto
  have step: "setProp (pre @ (k, v) # todo) k (g k v) = pre @ (k, g k v) # todo"
    unfolding setProp_def using k_pre by (rule update_mid)
  have disj: "fst ` set (pre @ [(k, g k v)]) \<inter> fst ` set todo = {}"
    using Cons.prems(2) k_todo p by auto
  from Cons.IH [OF d disj] show ?case
    by (simp add: p step)
qed

lemma normalizeRow_map:
  "wf_row row \<Longrightarrow>
     normalizeRow rt tm row = map (\<lambda>(k, v). (k, normalizeValue rt (tm k) v)) row"
  unfolding normalizeRow_def wf_row_def
  using fold_setProp_entries [of row "[]" "\<lambda>k v. normalizeValue rt (tm k) v"]
  by simp

lemma typeMap_fold:
  "fold (\<lambda>col m. m(name col \<mapsto> type col)) columns m0
     = m0 ++ map_of (rev (map (\<lambda>c. (name c, type c)) columns))"
proof (induction columns arbitrary: m0)
  case Nil
  then show ?case by simp
next
  case (Cons c columns)
  let ?f = "\<lambda>col m. m(name col \<mapsto> type col)"
  let ?ps = "rev (map (\<lambda>c. (name c, type c)) columns)"
  have "fold ?f (c # columns) m0 = fold ?f columns (m0(name c \<mapsto> type c))"
    by (simp only: fold_simps)
  also have "\<dots> = m0(name c \<mapsto> type c) ++ map_of ?ps"
    by (rule Cons.IH)
  also have "\<dots> = m0 ++ map_of (?ps @ [(name c, type c)])"
    by (auto simp add: map_add_def fun_eq_iff map_of_append split: option.splits)
  finally show ?case by (simp only: list.map rev.simps)
qed

lemma typeMap_map_of:
  "typeMap columns = map_of (rev (map (\<lambda>c. (name c, type c)) columns))"
  unfolding typeMap_def typeMap_fold by simp

lemma typeMap_None_iff: "typeMap columns k = None \<longleftrightarrow> k \<notin> set (map name columns)"
  by (simp add: typeMap_map_of map_of_eq_None_iff image_image)

lemma typeMap_orders:
  "typeMap orders_columns ''paid'' = Some TBoolean"
  "typeMap orders_columns ''total'' = Some TNumber"
  "typeMap orders_columns ''at'' = Some TDate"
  "typeMap orders_columns ''note'' = Some TString"
  by (simp_all add: typeMap_map_of orders_columns_def)

lemma getProp_map_entries:
  "wf_row row \<Longrightarrow> (k, v) \<in> set row \<Longrightarrow> getProp (map (\<lambda>(k, v). (k, g k v)) row) k = g k v"
proof -
  assume wf: "wf_row row" and kv: "(k, v) \<in> set row"
  have "distinct (map fst (map (\<lambda>(k, v). (k, g k v)) row))"
    using wf by (simp add: wf_row_def comp_def case_prod_unfold)
  moreover have "(k, g k v) \<in> set (map (\<lambda>(k, v). (k, g k v)) row)"
    using kv by force
  ultimately have "map_of (map (\<lambda>(k, v). (k, g k v)) row) k = Some (g k v)"
    by (rule map_of_is_SomeI)
  then show ?thesis by (simp add: getProp_def)
qed

section \<open>The read path\<close>

text \<open>
  C4. \<open>normalizeBoolean\<close> gives a native boolean back, turns \<open>1\<close> and \<open>'1'\<close> into
  \<open>true\<close>, \<open>0\<close> and \<open>'0'\<close> into \<open>false\<close>, and every other value, \<open>null\<close> among them,
  into \<open>null\<close>; and \<open>normalizeRows\<close> gives each cell of a boolean column the value
  \<open>normalizeBoolean\<close> computes for it.
\<close>

theorem normalizeBoolean_coercion:
  "normalizeBoolean (JSBool b) = JSBool b
   \<and> normalizeBoolean (JSNum (Finite 1)) = JSBool True
   \<and> normalizeBoolean (JSStr ''1'') = JSBool True
   \<and> normalizeBoolean (JSNum (Finite 0)) = JSBool False
   \<and> normalizeBoolean (JSStr ''0'') = JSBool False
   \<and> normalizeBoolean JSNull = JSNull
   \<and> ((\<forall>b. v \<noteq> JSBool b)
        \<and> v \<notin> {JSNum (Finite 1), JSStr ''1'', JSNum (Finite 0), JSStr ''0''}
      \<longrightarrow> normalizeBoolean v = JSNull)
   \<and> (i < length rows \<and> wf_row (rows ! i) \<and> (k, w) \<in> set (rows ! i)
        \<and> typeMap columns k = Some TBoolean
      \<longrightarrow> getProp (normalizeRows rt rows columns ! i) k = normalizeBoolean w)"
proof -
  have other: "(\<forall>b. v \<noteq> JSBool b)
        \<and> v \<notin> {JSNum (Finite 1), JSStr ''1'', JSNum (Finite 0), JSStr ''0''}
      \<longrightarrow> normalizeBoolean v = JSNull"
    by (cases v) (auto simp: normalizeBoolean_def)
  have cell: "i < length rows \<and> wf_row (rows ! i) \<and> (k, w) \<in> set (rows ! i)
        \<and> typeMap columns k = Some TBoolean
      \<longrightarrow> getProp (normalizeRows rt rows columns ! i) k = normalizeBoolean w"
  proof (intro impI, elim conjE)
    assume i: "i < length rows" and wf: "wf_row (rows ! i)" and kw: "(k, w) \<in> set (rows ! i)"
      and t: "typeMap columns k = Some TBoolean"
    have "getProp (normalizeRow rt (typeMap columns) (rows ! i)) k
          = normalizeValue rt (typeMap columns k) w"
      unfolding normalizeRow_map [OF wf] using wf kw by (rule getProp_map_entries)
    then show "getProp (normalizeRows rt rows columns ! i) k = normalizeBoolean w"
      using i t by (simp add: normalizeRows_def)
  qed
  show ?thesis
    using other cell by (simp add: normalizeBoolean_def)
qed

theorem normalizeBoolean_coercion_witness:
  "\<forall>rt. (\<forall>b. JSStr ''yes'' \<noteq> JSBool b)
     \<and> JSStr ''yes'' \<notin> {JSNum (Finite 1), JSStr ''1'', JSNum (Finite 0), JSStr ''0''}
     \<and> normalizeBoolean (JSStr ''yes'') = JSNull
     \<and> (0::nat) < length [raw_row] \<and> wf_row ([raw_row] ! 0)
     \<and> (''paid'', JSNum (Finite 1)) \<in> set ([raw_row] ! 0)
     \<and> typeMap orders_columns ''paid'' = Some TBoolean
     \<and> getProp (normalizeRows rt [raw_row] orders_columns ! 0) ''paid'' = JSBool True"
proof
  fix rt
  show "(\<forall>b. JSStr ''yes'' \<noteq> JSBool b)
     \<and> JSStr ''yes'' \<notin> {JSNum (Finite 1), JSStr ''1'', JSNum (Finite 0), JSStr ''0''}
     \<and> normalizeBoolean (JSStr ''yes'') = JSNull
     \<and> (0::nat) < length [raw_row] \<and> wf_row ([raw_row] ! 0)
     \<and> (''paid'', JSNum (Finite 1)) \<in> set ([raw_row] ! 0)
     \<and> typeMap orders_columns ''paid'' = Some TBoolean
     \<and> getProp (normalizeRows rt [raw_row] orders_columns ! 0) ''paid'' = JSBool True"
    using normalizeBoolean_coercion
      [of True "JSStr ''yes''" 0 "[raw_row]" "''paid''" "JSNum (Finite 1)" orders_columns rt]
    by (simp add: typeMap_orders wf_row_def raw_row_def)
qed









section \<open>The write path: one key, one row, one batch\<close>

lemma getProp_present: "getProp row k \<noteq> JSUndefined \<Longrightarrow> k \<in> fst ` set row"
proof -
  assume "getProp row k \<noteq> JSUndefined"
  then obtain v where "map_of row k = Some v"
    by (cases "map_of row k") (auto simp: getProp_def)
  then have "(k, v) \<in> set row" by (rule map_of_SomeD)
  then show ?thesis by force
qed

lemma getProp_entry: "wf_row row \<Longrightarrow> (k, v) \<in> set row \<Longrightarrow> getProp row k = v"
  by (simp add: getProp_def wf_row_def)

lemma map_other_key:
  "k \<notin> fst ` set row \<Longrightarrow> map (\<lambda>(k', v). (k', if k' = k then x else v)) row = row"
  by (induction row) auto

lemma setProp_map:
  "k \<in> fst ` set row \<Longrightarrow> wf_row row \<Longrightarrow>
     setProp row k x = map (\<lambda>(k', v). (k', if k' = k then x else v)) row"
  unfolding setProp_def wf_row_def
proof (induction row)
  case Nil
  then show ?case by simp
next
  case (Cons p row)
  obtain k' v where p: "p = (k', v)" by (cases p)
  show ?case
  proof (cases "k' = k")
    case True
    with Cons.prems p have "k \<notin> fst ` set row" by auto
    then show ?thesis using True p by (simp add: map_other_key)
  next
    case False
    with Cons p show ?thesis by auto
  qed
qed

lemma storedKeys_keys [simp]: "map fst (storedKeys isoStr columns K row) = map fst row"
  by (simp add: storedKeys_def comp_def case_prod_unfold)

lemma storedKeys_wf [simp]: "wf_row (storedKeys isoStr columns K row) = wf_row row"
  by (simp add: wf_row_def)

lemma storedKeys_empty [simp]: "storedKeys isoStr columns {} row = row"
  by (simp add: storedKeys_def case_prod_unfold)

lemma storedCell_idem [simp]:
  "storedCell isoStr t (storedCell isoStr t v) = storedCell isoStr t v"
  by (induction isoStr t v rule: storedCell.induct) simp_all

lemma storedKeys_storedKeys:
  "storedKeys isoStr columns K (storedKeys isoStr columns L row) = storedKeys isoStr columns (K \<union> L) row"
  by (auto simp: storedKeys_def)

lemma storedRow_storedKeys: "storedRow isoStr columns row = storedKeys isoStr columns UNIV row"
  by (simp add: storedRow_def storedKeys_def)

lemma storedKeys_cong:
  "K \<inter> fst ` set row = L \<inter> fst ` set row \<Longrightarrow>
     storedKeys isoStr columns K row = storedKeys isoStr columns L row"
proof -
  assume eq: "K \<inter> fst ` set row = L \<inter> fst ` set row"
  have "\<And>p. p \<in> set row \<Longrightarrow> fst p \<in> K \<longleftrightarrow> fst p \<in> L"
  proof -
    fix p assume "p \<in> set row"
    then have "fst p \<in> fst ` set row" by simp
    with eq show "fst p \<in> K \<longleftrightarrow> fst p \<in> L" by blast
  qed
  then show ?thesis
    unfolding storedKeys_def by (intro map_cong [OF refl]) (auto simp: case_prod_unfold)
qed

lemma getProp_storedKeys:
  "wf_row row \<Longrightarrow> k \<notin> K \<Longrightarrow> getProp (storedKeys isoStr columns K row) k = getProp row k"
proof (cases "map_of row k")
  case None
  assume "wf_row row" "k \<notin> K"
  from None have "k \<notin> fst ` set row" by (simp add: map_of_eq_None_iff)
  then have "k \<notin> fst ` set (storedKeys isoStr columns K row)"
    using storedKeys_keys [of isoStr columns K row] by (metis set_map)
  then have "map_of (storedKeys isoStr columns K row) k = None"
    by (simp add: map_of_eq_None_iff)
  with None show ?thesis by (simp add: getProp_def)
next
  case (Some v)
  assume wf: "wf_row row" and k: "k \<notin> K"
  from Some have "(k, v) \<in> set row" by (rule map_of_SomeD)
  then have "(k, v) \<in> set (storedKeys isoStr columns K row)"
    using k by (force simp: storedKeys_def)
  then have "getProp (storedKeys isoStr columns K row) k = v"
    using wf by (intro getProp_entry) simp_all
  with Some show ?thesis by (simp add: getProp_def)
qed

text \<open>One key: the step succeeds exactly on a declared column and an accepted cell.\<close>

lemma validateKey_Inr_iff:
  assumes "wf_row row"
  shows "validateKey isoStr columns row key = Inr row' \<longleftrightarrow>
           key \<in> set (map name columns)
           \<and> (\<exists>t. typeMap columns key = Some t \<and> accepted t (getProp row key))
           \<and> row' = storedKeys isoStr columns {key} row"
proof (cases "key \<in> set (map name columns)")
  case False
  then show ?thesis by (simp add: validateKey_def)
next
  case True
  then obtain t where t: "typeMap columns key = Some t"
    using typeMap_None_iff [of columns key] by auto
  let ?cell = "getProp row key"
  show ?thesis
  proof (cases "?cell = JSUndefined")
    case True
    then show ?thesis
      using \<open>key \<in> set (map name columns)\<close> t
      by (cases t) (simp_all add: validateKey_def mismatch_toString_def)
  next
    case False
    then have present: "key \<in> fst ` set row" by (rule getProp_present)
    have upd: "\<And>x. setProp row key x = map (\<lambda>(k', v). (k', if k' = key then x else v)) row"
      using present assms by (rule setProp_map)
    have same: "storedCell isoStr (Some t) ?cell = ?cell \<Longrightarrow>
                  storedKeys isoStr columns {key} row = row"
    proof -
      assume eq: "storedCell isoStr (Some t) ?cell = ?cell"
      have "map (\<lambda>(k, v). (k, if k \<in> {key} then storedCell isoStr (typeMap columns k) v else v)) row
            = map (\<lambda>p. p) row"
      proof (rule map_cong [OF refl])
        fix p assume p: "p \<in> set row"
        obtain k v where kv: "p = (k, v)" by (cases p)
        show "(case p of (k, v) \<Rightarrow>
                 (k, if k \<in> {key} then storedCell isoStr (typeMap columns k) v else v)) = p"
          using getProp_entry [OF assms, of k v] p kv eq t by auto
      qed
      then show ?thesis by (simp add: storedKeys_def)
    qed
    have date: "\<And>ms. ?cell = JSDate (DateAt ms) \<Longrightarrow> t = TDate \<Longrightarrow>
                  storedKeys isoStr columns {key} row = setProp row key (JSStr (isoStr ms))"
    proof -
      fix ms assume c: "?cell = JSDate (DateAt ms)" and td: "t = TDate"
      have "map (\<lambda>(k, v). (k, if k \<in> {key} then storedCell isoStr (typeMap columns k) v else v)) row
            = map (\<lambda>(k', v). (k', if k' = key then JSStr (isoStr ms) else v)) row"
      proof (rule map_cong [OF refl])
        fix p assume p: "p \<in> set row"
        obtain k v where kv: "p = (k, v)" by (cases p)
        show "(case p of (k, v) \<Rightarrow>
                 (k, if k \<in> {key} then storedCell isoStr (typeMap columns k) v else v))
              = (case p of (k', v) \<Rightarrow> (k', if k' = key then JSStr (isoStr ms) else v))"
          using getProp_entry [OF assms, of k v] p kv c t td by auto
      qed
      then show "storedKeys isoStr columns {key} row = setProp row key (JSStr (isoStr ms))"
        by (simp add: storedKeys_def upd)
    qed
    show ?thesis
    proof (cases "?cell = JSNull")
      case True
      then show ?thesis
        using \<open>key \<in> set (map name columns)\<close> t same by (auto simp: validateKey_def)
    next
      case notnull: False
      show ?thesis
      proof (cases t)
        case TBoolean
        then show ?thesis
          using \<open>key \<in> set (map name columns)\<close> t same notnull
          by (cases ?cell) (auto simp: validateKey_def)
      next
        case TString
        then show ?thesis
          using \<open>key \<in> set (map name columns)\<close> t same notnull
          by (cases ?cell) (auto simp: validateKey_def)
      next
        case TNumber
        then show ?thesis
          using \<open>key \<in> set (map name columns)\<close> t same notnull
          by (cases ?cell) (auto simp: validateKey_def)
      next
        case TDate
        show ?thesis
        proof (cases ?cell)
          case (JSDate d)
          then show ?thesis
            using \<open>key \<in> set (map name columns)\<close> t TDate date
            by (cases d) (auto simp: validateKey_def)
        qed (use \<open>key \<in> set (map name columns)\<close> t TDate notnull in
              \<open>auto simp: validateKey_def\<close>)
      qed
    qed
  qed
qed

lemma validateKey_Inr_accepted:
  "wf_row row \<Longrightarrow>
     validateKey isoStr columns row key = Inr row' \<longleftrightarrow>
       acceptedKey columns row key \<and> row' = storedKeys isoStr columns {key} row"
  using typeMap_None_iff [of columns key]
  by (auto simp: validateKey_Inr_iff acceptedKey_def split: option.splits)

lemma acceptedKey_storedKeys:
  "wf_row row \<Longrightarrow> k \<notin> K \<Longrightarrow>
     acceptedKey columns (storedKeys isoStr columns K row) k = acceptedKey columns row k"
  by (simp add: acceptedKey_def getProp_storedKeys split: option.splits)

lemma validateKey_Inl_getProp:
  "getProp row1 key = getProp row2 key \<Longrightarrow>
     validateKey isoStr columns row1 key = Inl e \<Longrightarrow>
     validateKey isoStr columns row2 key = Inl e"
  unfolding validateKey_def Let_def
  by (cases "typeMap columns key"; cases "the (typeMap columns key)"; cases "getProp row2 key")
     (auto split: if_splits jsdate.splits sum.splits)

lemma validateKeys_append:
  "validateKeys isoStr columns (ks1 @ ks2) row =
     (case validateKeys isoStr columns ks1 row of
        (Inl e, row') \<Rightarrow> (Inl e, row')
      | (Inr u, row') \<Rightarrow> validateKeys isoStr columns ks2 row')"
  by (induction ks1 arbitrary: row) (auto split: sum.splits)

text \<open>
  The loop over the keys either passes every key, or stops at the first key whose step
  raises; either way the row holds the stored form of the cells passed.
\<close>

lemma validateKeys_cases:
  assumes "wf_row row"
  shows "(validateKeys isoStr columns ks row = (Inr (), storedKeys isoStr columns (set ks) row)
          \<and> (\<forall>k \<in> set ks. acceptedKey columns row k))
       \<or> (\<exists>ks1 k ks2 e. ks = ks1 @ k # ks2
            \<and> (\<forall>k' \<in> set ks1. acceptedKey columns row k')
            \<and> validateKey isoStr columns (storedKeys isoStr columns (set ks1) row) k = Inl e
            \<and> validateKeys isoStr columns ks row
                = (Inl e, storedKeys isoStr columns (set ks1) row))"
  using assms
proof (induction ks arbitrary: row)
  case Nil
  then show ?case by simp
next
  case (Cons k ks)
  show ?case
  proof (cases "validateKey isoStr columns row k")
    case (Inl e)
    then have "k # ks = [] @ k # ks
            \<and> (\<forall>k' \<in> set []. acceptedKey columns row k')
            \<and> validateKey isoStr columns (storedKeys isoStr columns (set []) row) k = Inl e
            \<and> validateKeys isoStr columns (k # ks) row
                = (Inl e, storedKeys isoStr columns (set []) row)"
      by simp
    then show ?thesis by blast
  next
    case (Inr row1)
    with Cons.prems have acc: "acceptedKey columns row k"
      and row1: "row1 = storedKeys isoStr columns {k} row"
      by (simp_all add: validateKey_Inr_accepted)
    have wf1: "wf_row row1" using Cons.prems row1 by simp
    have before: "\<And>k'. acceptedKey columns row1 k' \<Longrightarrow> acceptedKey columns row k'"
    proof -
      fix k' assume a: "acceptedKey columns row1 k'"
      show "acceptedKey columns row k'"
      proof (cases "k' = k")
        case True
        then show ?thesis using acc by simp
      next
        case False
        then show ?thesis
          using a acceptedKey_storedKeys [OF Cons.prems, of k' "{k}" columns isoStr] row1
          by simp
      qed
    qed
    have st: "\<And>K. storedKeys isoStr columns K row1 = storedKeys isoStr columns (insert k K) row"
      by (simp add: row1 storedKeys_storedKeys)
    from Cons.IH [OF wf1] show ?thesis
    proof (elim disjE conjE exE)
      assume ok: "validateKeys isoStr columns ks row1
                    = (Inr (), storedKeys isoStr columns (set ks) row1)"
        and all: "\<forall>k \<in> set ks. acceptedKey columns row1 k"
      have "validateKeys isoStr columns (k # ks) row
              = (Inr (), storedKeys isoStr columns (set (k # ks)) row)"
        using Inr ok by (simp add: st)
      moreover have "\<forall>k' \<in> set (k # ks). acceptedKey columns row k'"
        using acc all before by auto
      ultimately show ?thesis by blast
    next
      fix ks1 k2 ks2 e
      assume split: "ks = ks1 @ k2 # ks2"
        and all: "\<forall>k' \<in> set ks1. acceptedKey columns row1 k'"
        and stop: "validateKey isoStr columns (storedKeys isoStr columns (set ks1) row1) k2 = Inl e"
        and res: "validateKeys isoStr columns ks row1
                    = (Inl e, storedKeys isoStr columns (set ks1) row1)"
      have "k # ks = (k # ks1) @ k2 # ks2" using split by simp
      moreover have "\<forall>k' \<in> set (k # ks1). acceptedKey columns row k'"
        using acc all before by auto
      moreover have "validateKey isoStr columns
                       (storedKeys isoStr columns (set (k # ks1)) row) k2 = Inl e"
        using stop by (simp add: st)
      moreover have "validateKeys isoStr columns (k # ks) row
                       = (Inl e, storedKeys isoStr columns (set (k # ks1)) row)"
        using Inr res by (simp add: st)
      ultimately show ?thesis by blast
    qed
  qed
qed

lemma validateKeys_accepted:
  assumes wf: "wf_row row" and d: "distinct ks" and acc: "\<forall>k \<in> set ks. acceptedKey columns row k"
  shows "validateKeys isoStr columns ks row = (Inr (), storedKeys isoStr columns (set ks) row)"
  using validateKeys_cases [OF wf, of isoStr columns ks]
proof (elim disjE conjE exE)
  fix ks1 k ks2 e
  assume split: "ks = ks1 @ k # ks2"
    and stop: "validateKey isoStr columns (storedKeys isoStr columns (set ks1) row) k = Inl e"
  from d split have "k \<notin> set ks1" by auto
  then have "acceptedKey columns (storedKeys isoStr columns (set ks1) row) k"
    using acc split by (simp add: acceptedKey_storedKeys [OF wf])
  then have "validateKey isoStr columns (storedKeys isoStr columns (set ks1) row) k
               = Inr (storedKeys isoStr columns {k} (storedKeys isoStr columns (set ks1) row))"
    using wf by (simp add: validateKey_Inr_accepted)
  with stop show ?thesis by simp
qed

lemma storedKeys_all: "fst ` set row \<subseteq> K \<Longrightarrow> storedKeys isoStr columns K row = storedRow isoStr columns row"
  unfolding storedRow_storedKeys by (rule storedKeys_cong) auto

lemma storedKeys_prefix:
  assumes "wf_row (pre @ post)"
  shows "storedKeys isoStr columns (fst ` set pre) (pre @ post) = storedRow isoStr columns pre @ post"
proof -
  have "storedKeys isoStr columns (fst ` set pre) pre = storedRow isoStr columns pre"
    by (rule storedKeys_all) simp
  moreover have "storedKeys isoStr columns (fst ` set pre) post = storedKeys isoStr columns {} post"
    using assms by (intro storedKeys_cong) (auto simp: wf_row_def)
  ultimately show ?thesis by (simp add: storedKeys_def)
qed

lemma storedRow_keys [simp]: "map fst (storedRow isoStr columns row) = map fst row"
  by (simp add: storedRow_storedKeys)

lemma storedRow_wf [simp]: "wf_row (storedRow isoStr columns row) = wf_row row"
  by (simp add: wf_row_def)

lemma storedRow_idem [simp]:
  "storedRow isoStr columns (storedRow isoStr columns row) = storedRow isoStr columns row"
  by (simp add: storedRow_storedKeys storedKeys_storedKeys)

text \<open>One row: it passes exactly when it has as many keys as the schema has columns and
  every key is accepted; it then takes its stored form.\<close>

lemma validateRow_Inr_iff:
  assumes "wf_row row"
  shows "fst (validateRow isoStr columns row) = Inr () \<longleftrightarrow>
           length columns = length row \<and> (\<forall>k \<in> set (keys row). acceptedKey columns row k)"
    and "fst (validateRow isoStr columns row) = Inr () \<Longrightarrow>
           validateRow isoStr columns row = (Inr (), storedRow isoStr columns row)"
proof -
  have d: "distinct (keys row)" using assms by (simp add: wf_row_def keys_def)
  have all: "storedKeys isoStr columns (set (keys row)) row = storedRow isoStr columns row"
    by (rule storedKeys_all) (simp add: keys_def)
  show iff: "fst (validateRow isoStr columns row) = Inr () \<longleftrightarrow>
           length columns = length row \<and> (\<forall>k \<in> set (keys row). acceptedKey columns row k)"
  proof (cases "length columns = length row")
    case False
    then show ?thesis by (simp add: validateRow_def keys_def)
  next
    case True
    show ?thesis
      using validateKeys_cases [OF assms, of isoStr columns "keys row"]
        validateKeys_accepted [OF assms d, of columns isoStr] True
      by (auto simp: validateRow_def keys_def)
  qed
  show "validateRow isoStr columns row = (Inr (), storedRow isoStr columns row)"
    if "fst (validateRow isoStr columns row) = Inr ()"
    using that iff validateKeys_accepted [OF assms d, of columns isoStr] all
    by (simp add: validateRow_def keys_def)
qed

lemma storedHeap_step:
  "storedHeap isoStr columns K (h(r := storedRow isoStr columns (h r)))
     = storedHeap isoStr columns (insert r K) h"
  by (auto simp: storedHeap_def fun_eq_iff)

lemma storedHeap_empty [simp]: "storedHeap isoStr columns {} h = h"
  by (simp add: storedHeap_def)

lemma validateBatch_append:
  "validateBatch isoStr columns (rs1 @ rs2) h =
     (case validateBatch isoStr columns rs1 h of
        (Inl e, h') \<Rightarrow> (Inl e, h')
      | (Inr u, h') \<Rightarrow> validateBatch isoStr columns rs2 h')"
  by (induction rs1 arbitrary: h) (auto split: sum.splits prod.splits)

text \<open>
  The loop over the rows either passes every row, or stops at the first row whose
  validation raises: the rows before it have their stored form, and the row itself is
  as its own validation left it.
\<close>

lemma validateBatch_cases:
  assumes "\<forall>r \<in> set rs. wf_row (h r)"
  shows "(validateBatch isoStr columns rs h = (Inr (), storedHeap isoStr columns (set rs) h)
          \<and> (\<forall>r \<in> set rs. fst (validateRow isoStr columns (h r)) = Inr ()))
       \<or> (\<exists>rs1 r rs2 e row'. rs = rs1 @ r # rs2
            \<and> (\<forall>x \<in> set rs1. fst (validateRow isoStr columns (h x)) = Inr ())
            \<and> validateRow isoStr columns (storedHeap isoStr columns (set rs1) h r) = (Inl e, row')
            \<and> validateBatch isoStr columns rs h
                = (Inl e, (storedHeap isoStr columns (set rs1) h)(r := row')))"
  using assms
proof (induction rs arbitrary: h)
  case Nil
  then show ?case by simp
next
  case (Cons r0 rs)
  obtain res row1 where v: "validateRow isoStr columns (h r0) = (res, row1)"
    by (cases "validateRow isoStr columns (h r0)")
  show ?case
  proof (cases res)
    case (Inl e)
    with v have "r0 # rs = [] @ r0 # rs
            \<and> (\<forall>x \<in> set []. fst (validateRow isoStr columns (h x)) = Inr ())
            \<and> validateRow isoStr columns (storedHeap isoStr columns (set []) h r0) = (Inl e, row1)
            \<and> validateBatch isoStr columns (r0 # rs) h
                = (Inl e, (storedHeap isoStr columns (set []) h)(r0 := row1))"
      by simp
    then show ?thesis by blast
  next
    case (Inr u)
    have wf0: "wf_row (h r0)" using Cons.prems by simp
    from v Inr have ok0: "fst (validateRow isoStr columns (h r0)) = Inr ()" by simp
    then have row1: "row1 = storedRow isoStr columns (h r0)"
      using validateRow_Inr_iff(2) [OF wf0, of isoStr columns] v by simp
    let ?h1 = "h(r0 := storedRow isoStr columns (h r0))"
    have wf1: "\<forall>r \<in> set rs. wf_row (?h1 r)" using Cons.prems by simp
    have step: "validateBatch isoStr columns (r0 # rs) h = validateBatch isoStr columns rs ?h1"
      using v Inr row1 by simp
    have before: "\<And>x. fst (validateRow isoStr columns (?h1 x)) = Inr ()
                    \<Longrightarrow> fst (validateRow isoStr columns (h x)) = Inr ()"
      using ok0 by (simp split: if_splits)
    from Cons.IH [OF wf1] show ?thesis
    proof (elim disjE conjE exE)
      assume ok: "validateBatch isoStr columns rs ?h1
                    = (Inr (), storedHeap isoStr columns (set rs) ?h1)"
        and all: "\<forall>r \<in> set rs. fst (validateRow isoStr columns (?h1 r)) = Inr ()"
      have "validateBatch isoStr columns (r0 # rs) h
              = (Inr (), storedHeap isoStr columns (set (r0 # rs)) h)"
        using step ok by (simp add: storedHeap_step)
      moreover have "\<forall>r \<in> set (r0 # rs). fst (validateRow isoStr columns (h r)) = Inr ()"
        using ok0 all before by auto
      ultimately show ?thesis by blast
    next
      fix rs1 r rs2 e row'
      assume split: "rs = rs1 @ r # rs2"
        and all: "\<forall>x \<in> set rs1. fst (validateRow isoStr columns (?h1 x)) = Inr ()"
        and stop: "validateRow isoStr columns (storedHeap isoStr columns (set rs1) ?h1 r)
                     = (Inl e, row')"
        and res: "validateBatch isoStr columns rs ?h1
                    = (Inl e, (storedHeap isoStr columns (set rs1) ?h1)(r := row'))"
      have "r0 # rs = (r0 # rs1) @ r # rs2" using split by simp
      moreover have "\<forall>x \<in> set (r0 # rs1). fst (validateRow isoStr columns (h x)) = Inr ()"
        using ok0 all before by auto
      moreover have "validateRow isoStr columns (storedHeap isoStr columns (set (r0 # rs1)) h r)
                       = (Inl e, row')"
        using stop by (simp add: storedHeap_step)
      moreover have "validateBatch isoStr columns (r0 # rs) h
                       = (Inl e, (storedHeap isoStr columns (set (r0 # rs1)) h)(r := row'))"
        using step res by (simp add: storedHeap_step)
      ultimately show ?thesis by blast
    qed
  qed
qed

lemma validateBatch_accepted:
  assumes wf: "\<forall>r \<in> set rs. wf_row (h r)" and d: "distinct rs"
    and ok: "\<forall>r \<in> set rs. fst (validateRow isoStr columns (h r)) = Inr ()"
  shows "validateBatch isoStr columns rs h = (Inr (), storedHeap isoStr columns (set rs) h)"
  using validateBatch_cases [OF wf, of isoStr columns]
proof (elim disjE conjE exE)
  fix rs1 r rs2 e row'
  assume split: "rs = rs1 @ r # rs2"
    and stop: "validateRow isoStr columns (storedHeap isoStr columns (set rs1) h r) = (Inl e, row')"
  from d split have "r \<notin> set rs1" by auto
  then have "storedHeap isoStr columns (set rs1) h r = h r" by (simp add: storedHeap_def)
  with stop ok split show ?thesis by simp
qed

lemma accepted_iff: "accepted t v \<longleftrightarrow> (v = JSNull \<or> native t v) \<and> v \<noteq> JSDate InvalidDate"
  by (cases t; cases v; (cases "case v of JSDate d \<Rightarrow> d | _ \<Rightarrow> InvalidDate")?) auto

lemma conforming_row_accepted:
  assumes wf: "wf_row row" and dn: "distinct (map name columns)"
    and ks: "hasSchemaKeys columns row" and c: "canonicalRow columns row" and vd: "validDates row"
  shows "validateRow isoStr columns row = (Inr (), storedRow isoStr columns row)"
proof -
  have "card (set (keys row)) = length row"
    using wf distinct_card [of "map fst row"] by (simp add: wf_row_def keys_def)
  moreover have "card (set (map name columns)) = length columns"
    using dn distinct_card [of "map name columns"] by simp
  ultimately have len: "length columns = length row"
    using ks by (simp add: hasSchemaKeys_def)
  have acc: "\<forall>k \<in> set (keys row). acceptedKey columns row k"
  proof
    fix k assume k: "k \<in> set (keys row)"
    then obtain v where kv: "(k, v) \<in> set row" by (auto simp: keys_def)
    then have g: "getProp row k = v" using wf by (simp add: getProp_entry)
    from k ks have "k \<in> set (map name columns)" by (simp add: hasSchemaKeys_def)
    then obtain t where t: "typeMap columns k = Some t"
      using typeMap_None_iff [of columns k] by auto
    from c kv t have "v = JSNull \<or> native t v"
      by (auto simp: canonicalRow_def list_all_iff)
    moreover from vd kv have "v \<noteq> JSDate InvalidDate"
      by (auto simp: validDates_def list_all_iff)
    ultimately show "acceptedKey columns row k"
      by (simp add: acceptedKey_def t g accepted_iff)
  qed
  from len acc have "fst (validateRow isoStr columns row) = Inr ()"
    by (simp add: validateRow_Inr_iff(1) [OF wf])
  then show ?thesis by (rule validateRow_Inr_iff(2) [OF wf])
qed

text \<open>
  C1, as amended. For every schema that is not empty and has no column name twice, and
  every batch of distinct row objects in which each row has exactly the schema's column
  names as keys, every cell is \<open>null\<close> or of its column's declared type, and every date is
  a valid one: \<open>validateRows\<close> raises nothing and leaves every cell as it was, except
  that each date under a date column is now its ISO-8601 string.
\<close>

theorem validateRows_accepts:
  assumes cols: "getColumns co db dataStoreId = columns" "columns \<noteq> []"
      "distinct (map name columns)"
    and refs: "distinct rows"
    and rows: "\<forall>r \<in> set rows. wf_row (h r) \<and> hasSchemaKeys columns (h r)
                 \<and> canonicalRow columns (h r) \<and> validDates (h r)"
  shows "validateRows isoStr co db dataStoreId rows h
           = (Inr (), storedHeap isoStr columns (set rows) h)"
proof -
  have wf: "\<forall>r \<in> set rows. wf_row (h r)" using rows by simp
  have ok: "\<forall>r \<in> set rows. fst (validateRow isoStr columns (h r)) = Inr ()"
    using rows cols(3) by (simp add: conforming_row_accepted)
  show ?thesis
    using cols(1,2) validateBatch_accepted [OF wf refs ok]
    by (simp add: validateRows_def)
qed

theorem validateRows_accepts_witness:
  "getColumns orders_co [] ''orders'' = orders_columns \<and> orders_columns \<noteq> []
   \<and> distinct (map name orders_columns) \<and> distinct [0 :: nat, 1]
   \<and> wf_row canonical_row \<and> hasSchemaKeys orders_columns canonical_row
   \<and> canonicalRow orders_columns canonical_row \<and> validDates canonical_row
   \<and> wf_row null_row \<and> hasSchemaKeys orders_columns null_row
   \<and> canonicalRow orders_columns null_row \<and> validDates null_row
   \<and> validateRows isoString_ecma orders_co [] ''orders'' [0, 1] (heap_of [canonical_row, null_row])
       = (Inr (), storedHeap isoString_ecma orders_columns (set [0, 1])
                    (heap_of [canonical_row, null_row]))
   \<and> storedHeap isoString_ecma orders_columns (set [0, 1]) (heap_of [canonical_row, null_row]) 0
       = stored_row
   \<and> storedHeap isoString_ecma orders_columns (set [0, 1]) (heap_of [canonical_row, null_row]) 1
       = null_row"
proof -
  have cols: "getColumns orders_co [] ''orders'' = orders_columns" "orders_columns \<noteq> []"
    "distinct (map name orders_columns)"
    by (simp_all add: orders_co_def orders_columns_def)
  have refs: "distinct [0 :: nat, 1]" by simp
  have r0: "wf_row canonical_row" "hasSchemaKeys orders_columns canonical_row"
    "canonicalRow orders_columns canonical_row" "validDates canonical_row"
    by code_simp+
  have r1: "wf_row null_row" "hasSchemaKeys orders_columns null_row"
    "canonicalRow orders_columns null_row" "validDates null_row"
    by code_simp+
  have rows: "\<forall>r \<in> set [0, 1].
      wf_row (heap_of [canonical_row, null_row] r)
      \<and> hasSchemaKeys orders_columns (heap_of [canonical_row, null_row] r)
      \<and> canonicalRow orders_columns (heap_of [canonical_row, null_row] r)
      \<and> validDates (heap_of [canonical_row, null_row] r)"
    using r0 r1 by (simp add: heap_of_def)
  have s0: "storedHeap isoString_ecma orders_columns (set [0, 1])
              (heap_of [canonical_row, null_row]) 0 = stored_row"
    by code_simp
  have s1: "storedHeap isoString_ecma orders_columns (set [0, 1])
              (heap_of [canonical_row, null_row]) 1 = null_row"
    by code_simp
  from validateRows_accepts [OF cols refs rows, of isoString_ecma]
  show ?thesis using cols refs r0 r1 s0 s1 by simp
qed

text \<open>
  The claim as first stated fails: on a row that holds an invalid \<open>Date\<close> under a date
  column (\<open>toISOString\<close> raises a \<open>RangeError\<close>), on a batch that names one row object
  twice (the second visit finds the string the first one wrote), and on an empty schema.
\<close>

theorem validateRows_accepts_counterexample:
  "hasSchemaKeys orders_columns invalid_date_row \<and> canonicalRow orders_columns invalid_date_row
   \<and> fst (validateRows isoString_ecma orders_co [] ''orders'' [0] (heap_of [invalid_date_row]))
       = Inl RangeError
   \<and> hasSchemaKeys orders_columns canonical_row \<and> canonicalRow orders_columns canonical_row
   \<and> fst (validateRows isoString_ecma orders_co [] ''orders'' [0, 0] (heap_of [canonical_row]))
       = Inl (UserError (TypeMismatch (JSStr ''2023-11-14T22:13:20.123Z'') TDate))
   \<and> hasSchemaKeys (getColumns orders_co [] ''none'') []
   \<and> canonicalRow (getColumns orders_co [] ''none'') []
   \<and> fst (validateRows isoString_ecma orders_co [] ''none'' [0] (heap_of [[]]))
       = Inl (UserError NoColumnsFound)"
  by code_simp

text \<open>
  The first key of a row whose step raises decides the row: the cells before it have
  their stored form, the rest of the row is as it was.
\<close>

lemma validateRow_first_failure:
  assumes wf: "wf_row row" and row: "row = pre @ (k, v) # post"
    and len: "length columns = length row"
    and acc: "\<forall>k' \<in> fst ` set pre. acceptedKey columns row k'"
    and stop: "validateKey isoStr columns row k = Inl e"
  shows "validateRow isoStr columns row = (Inl e, storedRow isoStr columns pre @ (k, v) # post)"
proof -
  have d: "distinct (map fst pre)" and k: "k \<notin> fst ` set pre"
    using wf row by (auto simp: wf_row_def)
  have pre: "validateKeys isoStr columns (map fst pre) row
               = (Inr (), storedKeys isoStr columns (fst ` set pre) row)"
    using validateKeys_accepted [OF wf d, of columns isoStr] acc by simp
  have st: "storedKeys isoStr columns (fst ` set pre) row
              = storedRow isoStr columns pre @ (k, v) # post"
    using wf storedKeys_prefix [of pre "(k, v) # post" isoStr columns] by (simp add: row)
  have "getProp (storedKeys isoStr columns (fst ` set pre) row) k = getProp row k"
    using wf k by (intro getProp_storedKeys) simp_all
  then have "validateKey isoStr columns (storedRow isoStr columns pre @ (k, v) # post) k = Inl e"
    using stop st by (metis validateKey_Inl_getProp)
  then have "validateKeys isoStr columns (map fst pre @ k # map fst post) row
               = (Inl e, storedRow isoStr columns pre @ (k, v) # post)"
    by (simp add: validateKeys_append pre st)
  then show ?thesis
    using len by (simp add: validateRow_def keys_def row)
qed

lemma validateBatch_passed:
  assumes "\<forall>r \<in> set rs. wf_row (h r)" and "fst (validateBatch isoStr columns rs h) = Inr ()"
  shows "validateBatch isoStr columns rs h = (Inr (), storedHeap isoStr columns (set rs) h)"
    and "\<forall>r \<in> set rs. fst (validateRow isoStr columns (h r)) = Inr ()"
  using validateBatch_cases [OF assms(1), of isoStr columns] assms(2) by auto

text \<open>A batch with a row that does not pass on its own does not pass.\<close>

lemma validateBatch_rejects:
  assumes wf: "\<forall>r \<in> set rs. wf_row (h r)" and r: "r \<in> set rs"
    and bad: "fst (validateRow isoStr columns (h r)) \<noteq> Inr ()"
  shows "\<exists>e. fst (validateBatch isoStr columns rs h) = Inl e"
proof (cases "fst (validateBatch isoStr columns rs h)")
  case (Inl e)
  then show ?thesis by blast
next
  case (Inr u)
  then have "fst (validateBatch isoStr columns rs h) = Inr ()" by simp
  from validateBatch_passed(2) [OF wf this] r bad show ?thesis by blast
qed

text \<open>The row at which the batch stops, when the rows before it pass.\<close>

lemma validateBatch_first_failure:
  assumes wf: "\<forall>x \<in> set (rs1 @ r # rs2). wf_row (h x)"
    and pre: "fst (validateBatch isoStr columns rs1 h) = Inr ()"
    and stop: "validateRow isoStr columns (storedHeap isoStr columns (set rs1) h r) = (Inl e, row')"
  shows "validateBatch isoStr columns (rs1 @ r # rs2) h
           = (Inl e, (storedHeap isoStr columns (set rs1) h)(r := row'))"
proof -
  have wf1: "\<forall>x \<in> set rs1. wf_row (h x)" using wf by simp
  from validateBatch_passed(1) [OF wf1 pre] stop show ?thesis
    by (simp add: validateBatch_append)
qed

lemma storedHeap_keys [simp]: "keys (storedHeap isoStr columns R h r) = keys (h r)"
  by (simp add: storedHeap_def keys_def)

lemma validateRows_nonempty:
  "getColumns co db dataStoreId = columns \<Longrightarrow> columns \<noteq> [] \<Longrightarrow>
     validateRows isoStr co db dataStoreId rows h = validateBatch isoStr columns rows h"
  by (simp add: validateRows_def)

text \<open>
  C2, as amended. For every schema that is not empty and every batch with a row whose
  number of keys differs from the number of columns, the validation of that row raises
  the mismatched-key-count error, whichever keys differ, and \<open>validateRows\<close> raises; it
  raises the mismatched-key-count error when validation passes the rows before that
  row.
\<close>

theorem validateRows_mismatched_key_count:
  assumes cols: "getColumns co db dataStoreId = columns" "columns \<noteq> []"
    and wf: "\<forall>x \<in> set rows. wf_row (h x)"
    and r: "rows = rs1 @ r # rs2"
    and count: "length (keys (h r)) \<noteq> length columns"
  shows "fst (validateRow isoStr columns (h r)) = Inl (UserError MismatchedKeyCount)
       \<and> (\<exists>e. fst (validateRows isoStr co db dataStoreId rows h) = Inl e)
       \<and> (fst (validateRows isoStr co db dataStoreId rs1 h) = Inr ()
          \<longrightarrow> fst (validateRows isoStr co db dataStoreId rows h)
                = Inl (UserError MismatchedKeyCount))"
proof (intro conjI)
  show "fst (validateRow isoStr columns (h r)) = Inl (UserError MismatchedKeyCount)"
    using count by (simp add: validateRow_def)
next
  have "fst (validateRow isoStr columns (h r)) \<noteq> Inr ()"
    using count by (simp add: validateRow_def)
  moreover have "r \<in> set rows" using r by simp
  ultimately show "\<exists>e. fst (validateRows isoStr co db dataStoreId rows h) = Inl e"
    using validateBatch_rejects [OF wf, of r isoStr columns]
    by (simp add: validateRows_nonempty [OF cols])
next
  show "fst (validateRows isoStr co db dataStoreId rs1 h) = Inr ()
          \<longrightarrow> fst (validateRows isoStr co db dataStoreId rows h)
                = Inl (UserError MismatchedKeyCount)"
  proof
    assume "fst (validateRows isoStr co db dataStoreId rs1 h) = Inr ()"
    then have pre: "fst (validateBatch isoStr columns rs1 h) = Inr ()"
      by (simp add: validateRows_nonempty [OF cols])
    have stop: "validateRow isoStr columns (storedHeap isoStr columns (set rs1) h r)
                  = (Inl (UserError MismatchedKeyCount), storedHeap isoStr columns (set rs1) h r)"
      using count by (simp add: validateRow_def)
    have wf': "\<forall>x \<in> set (rs1 @ r # rs2). wf_row (h x)" using wf r by simp
    from validateBatch_first_failure [OF wf' pre stop]
    show "fst (validateRows isoStr co db dataStoreId rows h) = Inl (UserError MismatchedKeyCount)"
      by (simp add: validateRows_nonempty [OF cols] r)
  qed
qed

theorem validateRows_mismatched_key_count_witness:
  "getColumns orders_co [] ''orders'' = orders_columns \<and> orders_columns \<noteq> []
   \<and> wf_row canonical_row \<and> wf_row short_row \<and> wf_row yes_row
   \<and> [0, 1, 2] = [0] @ 1 # [2 :: nat]
   \<and> length (keys short_row) \<noteq> length orders_columns
   \<and> fst (validateRows isoString_ecma orders_co [] ''orders'' [0]
            (heap_of [canonical_row, short_row, yes_row])) = Inr ()
   \<and> fst (validateRows isoString_ecma orders_co [] ''orders'' [0, 1, 2]
            (heap_of [canonical_row, short_row, yes_row])) = Inl (UserError MismatchedKeyCount)"
proof -
  let ?h = "heap_of [canonical_row, short_row, yes_row]"
  have cols: "getColumns orders_co [] ''orders'' = orders_columns" "orders_columns \<noteq> []"
    by (simp_all add: orders_co_def orders_columns_def)
  have wfs: "wf_row canonical_row" "wf_row short_row" "wf_row yes_row"
    by code_simp+
  have wf: "\<forall>x \<in> set [0, 1, 2]. wf_row (?h x)"
    using wfs by (simp add: heap_of_def)
  have r: "[0, 1, 2] = [0] @ 1 # [2 :: nat]" by simp
  have count: "length (keys short_row) \<noteq> length orders_columns" by code_simp
  then have count': "length (keys (?h 1)) \<noteq> length orders_columns" by (simp add: heap_of_def)
  have pre: "fst (validateRows isoString_ecma orders_co [] ''orders'' [0] ?h) = Inr ()"
    by code_simp
  from validateRows_mismatched_key_count [OF cols wf r count', of isoString_ecma]
  show ?thesis using cols wfs count pre by simp
qed

text \<open>
  The claim as first stated fails: a row before the one with the wrong number of keys
  holds a string under the boolean column, and the batch stops there, with the type
  mismatch.
\<close>

theorem validateRows_mismatched_key_count_counterexample:
  "getColumns orders_co [] ''orders'' \<noteq> []
   \<and> length (keys short_row) \<noteq> length (getColumns orders_co [] ''orders'')
   \<and> fst (validateRows isoString_ecma orders_co [] ''orders'' [0, 1] (heap_of [yes_row, short_row]))
       = Inl (UserError (TypeMismatch (JSStr ''yes'') TBoolean))"
  by code_simp

lemma unknown_key_rejected:
  assumes wf: "wf_row row" and k: "k \<in> set (keys row)" and u: "k \<notin> set (map name columns)"
  shows "fst (validateRow isoStr columns row) \<noteq> Inr ()"
proof
  assume "fst (validateRow isoStr columns row) = Inr ()"
  then have "acceptedKey columns row k"
    using k by (simp add: validateRow_Inr_iff(1) [OF wf])
  then have "typeMap columns k \<noteq> None"
    by (auto simp: acceptedKey_def split: option.splits)
  with u show False by (simp add: typeMap_None_iff)
qed

text \<open>
  C3, as amended. For every schema that is not empty and every batch with a row that has
  a key that is no column name, the step of the validation on that key raises the
  unknown-column error, and \<open>validateRows\<close> raises; it raises the unknown-column error
  when validation passes the rows before that row, the row has as many keys as the schema
  has columns, and every key before that key in the row is accepted.
\<close>

theorem validateRows_unknown_column:
  assumes cols: "getColumns co db dataStoreId = columns" "columns \<noteq> []"
    and wf: "\<forall>x \<in> set rows. wf_row (h x)"
    and r: "rows = rs1 @ r # rs2"
    and cell: "h r = pre @ (k, v) # post"
    and unknown: "k \<notin> set (map name columns)"
  shows "(\<forall>row. validateKey isoStr columns row k = Inl (UserError UnknownColumnName))
       \<and> (\<exists>e. fst (validateRows isoStr co db dataStoreId rows h) = Inl e)
       \<and> (fst (validateRows isoStr co db dataStoreId rs1 h) = Inr ()
            \<and> length (keys (h r)) = length columns
            \<and> (\<forall>k' \<in> set (keys pre). acceptedKey columns (h r) k')
          \<longrightarrow> fst (validateRows isoStr co db dataStoreId rows h)
                = Inl (UserError UnknownColumnName))"
proof (intro conjI)
  show "\<forall>row. validateKey isoStr columns row k = Inl (UserError UnknownColumnName)"
    using unknown by (simp add: validateKey_def)
next
  have wfr: "wf_row (h r)" using wf r by simp
  have kr: "k \<in> set (keys (h r))" by (simp add: cell keys_def)
  have bad: "fst (validateRow isoStr columns (h r)) \<noteq> Inr ()"
    using wfr kr unknown by (rule unknown_key_rejected)
  have rin: "r \<in> set rows" using r by simp
  show "\<exists>e. fst (validateRows isoStr co db dataStoreId rows h) = Inl e"
    using validateBatch_rejects [OF wf rin bad]
    by (simp add: validateRows_nonempty [OF cols])
  show "fst (validateRows isoStr co db dataStoreId rs1 h) = Inr ()
            \<and> length (keys (h r)) = length columns
            \<and> (\<forall>k' \<in> set (keys pre). acceptedKey columns (h r) k')
          \<longrightarrow> fst (validateRows isoStr co db dataStoreId rows h)
                = Inl (UserError UnknownColumnName)"
  proof (intro impI, elim conjE)
    assume "fst (validateRows isoStr co db dataStoreId rs1 h) = Inr ()"
      and len: "length (keys (h r)) = length columns"
      and acc: "\<forall>k' \<in> set (keys pre). acceptedKey columns (h r) k'"
    then have pre: "fst (validateBatch isoStr columns rs1 h) = Inr ()"
      by (simp add: validateRows_nonempty [OF cols])
    have wf1: "\<forall>x \<in> set rs1. wf_row (h x)" using wf r by simp
    have "r \<notin> set rs1"
      using validateBatch_passed(2) [OF wf1 pre] bad by blast
    then have same: "storedHeap isoStr columns (set rs1) h r = h r"
      by (simp add: storedHeap_def)
    have "validateKey isoStr columns (h r) k = Inl (UserError UnknownColumnName)"
      using unknown by (simp add: validateKey_def)
    then have stop: "validateRow isoStr columns (storedHeap isoStr columns (set rs1) h r)
             = (Inl (UserError UnknownColumnName), storedRow isoStr columns pre @ (k, v) # post)"
      unfolding same using wfr cell len acc
      by (intro validateRow_first_failure) (simp_all add: keys_def)
    have wf': "\<forall>x \<in> set (rs1 @ r # rs2). wf_row (h x)" using wf r by simp
    from validateBatch_first_failure [OF wf' pre stop]
    show "fst (validateRows isoStr co db dataStoreId rows h) = Inl (UserError UnknownColumnName)"
      by (simp add: validateRows_nonempty [OF cols] r)
  qed
qed

theorem validateRows_unknown_column_witness:
  "getColumns orders_co [] ''orders'' = orders_columns \<and> orders_columns \<noteq> []
   \<and> wf_row canonical_row \<and> wf_row renamed_key_row
   \<and> [0, 1] = [0] @ 1 # ([] :: nat list)
   \<and> renamed_key_row
       = [(''paid'', JSBool True)] @ (''amount'', JSNum (Finite 10))
           # [(''at'', JSNull), (''note'', JSNull)]
   \<and> ''amount'' \<notin> set (map name orders_columns)
   \<and> fst (validateRows isoString_ecma orders_co [] ''orders'' [0]
            (heap_of [canonical_row, renamed_key_row])) = Inr ()
   \<and> length (keys renamed_key_row) = length orders_columns
   \<and> acceptedKey orders_columns renamed_key_row ''paid''
   \<and> fst (validateRows isoString_ecma orders_co [] ''orders'' [0, 1]
            (heap_of [canonical_row, renamed_key_row])) = Inl (UserError UnknownColumnName)"
proof -
  let ?h = "heap_of [canonical_row, renamed_key_row]"
  have cols: "getColumns orders_co [] ''orders'' = orders_columns" "orders_columns \<noteq> []"
    by (simp_all add: orders_co_def orders_columns_def)
  have wfs: "wf_row canonical_row" "wf_row renamed_key_row"
    by code_simp+
  have wf: "\<forall>x \<in> set [0, 1]. wf_row (?h x)"
    using wfs by (simp add: heap_of_def)
  have r: "[0, 1] = [0] @ 1 # ([] :: nat list)" by simp
  have split: "renamed_key_row
       = [(''paid'', JSBool True)] @ (''amount'', JSNum (Finite 10))
           # [(''at'', JSNull), (''note'', JSNull)]"
    by (simp add: renamed_key_row_def)
  then have cell: "?h 1 = [(''paid'', JSBool True)] @ (''amount'', JSNum (Finite 10))
           # [(''at'', JSNull), (''note'', JSNull)]"
    by (simp add: heap_of_def)
  have unknown: "''amount'' \<notin> set (map name orders_columns)" by code_simp
  have pre: "fst (validateRows isoString_ecma orders_co [] ''orders'' [0] ?h) = Inr ()"
    by code_simp
  have len: "length (keys renamed_key_row) = length orders_columns" by code_simp
  have acc: "acceptedKey orders_columns renamed_key_row ''paid''" by code_simp
  have h1: "?h 1 = renamed_key_row" by (simp add: heap_of_def)
  have len': "length (keys (?h 1)) = length orders_columns"
    unfolding h1 by (rule len)
  have acc': "\<forall>k' \<in> set (keys [(''paid'', JSBool True)]). acceptedKey orders_columns (?h 1) k'"
    unfolding h1 using acc by (simp add: keys_def)
  from validateRows_unknown_column [OF cols wf r cell unknown, of isoString_ecma] pre len' acc'
  have "fst (validateRows isoString_ecma orders_co [] ''orders'' [0, 1] ?h)
          = Inl (UserError UnknownColumnName)"
    by blast
  then show ?thesis using cols wfs split unknown pre len acc
    by simp
qed

text \<open>
  The claim as first stated fails: a row with an unknown key and one key too many meets
  the key count check first; and in a row with the right number of keys, a mistyped
  cell before the unknown key is met first.
\<close>

theorem validateRows_unknown_column_counterexample:
  "getColumns orders_co [] ''orders'' \<noteq> []
   \<and> ''bogus'' \<in> set (keys extra_key_row)
   \<and> ''bogus'' \<notin> set (map name (getColumns orders_co [] ''orders''))
   \<and> fst (validateRows isoString_ecma orders_co [] ''orders'' [0] (heap_of [extra_key_row]))
       = Inl (UserError MismatchedKeyCount)
   \<and> ''amount'' \<in> set (keys yes_renamed_row)
   \<and> ''amount'' \<notin> set (map name (getColumns orders_co [] ''orders''))
   \<and> fst (validateRows isoString_ecma orders_co [] ''orders'' [0] (heap_of [yes_renamed_row]))
       = Inl (UserError (TypeMismatch (JSStr ''yes'') TBoolean))"
  by code_simp

lemma schema_keys_length:
  assumes "wf_row row" and "distinct (map name columns)" and "hasSchemaKeys columns row"
  shows "length columns = length row"
proof -
  have "card (set (keys row)) = length row"
    using assms(1) distinct_card [of "map fst row"] by (simp add: wf_row_def keys_def)
  moreover have "card (set (map name columns)) = length columns"
    using assms(2) distinct_card [of "map name columns"] by simp
  ultimately show ?thesis
    using assms(3) by (simp add: hasSchemaKeys_def)
qed

lemma validateRows_single:
  "getColumns co db dataStoreId = columns \<Longrightarrow> columns \<noteq> [] \<Longrightarrow>
     fst (validateRows isoStr co db dataStoreId [r] h) = fst (validateRow isoStr columns (h r))"
  by (simp add: validateRows_def split: prod.splits sum.splits)

text \<open>
  C5. On the write path, for a cell of a row whose keys are the schema's column names:
  the step of \<open>validateRows\<close> on a \<open>null\<close> cell raises nothing, whatever the type of its
  column; on a cell of a boolean column that is not \<open>null\<close> it raises nothing exactly when
  the cell is a native boolean; on \<open>1\<close>, \<open>'1'\<close>, \<open>0\<close> and \<open>'0'\<close> it raises the type
  mismatch for \<open>boolean\<close>: nothing is coerced. So, when the other cells of the row are
  accepted, \<open>validateRows\<close> accepts the row with a \<open>null\<close> cell, accepts the row with a cell
  of a boolean column exactly when that cell is \<open>null\<close> or a native boolean, and fails
  with the type mismatch for \<open>boolean\<close> on every number, string and \<open>Date\<close>.
\<close>

theorem validateRows_null_and_boolean:
  assumes cols: "getColumns co db dataStoreId = columns" "columns \<noteq> []"
      "distinct (map name columns)"
    and wf: "wf_row (h r)" and ks: "hasSchemaKeys columns (h r)"
    and cell: "(k, v) \<in> set (h r)"
  shows "(v = JSNull \<longrightarrow> validateKey isoStr columns (h r) k = Inr (h r))
       \<and> (typeMap columns k = Some TBoolean \<and> v \<noteq> JSNull \<longrightarrow>
            ((\<exists>row'. validateKey isoStr columns (h r) k = Inr row') \<longleftrightarrow> (\<exists>b. v = JSBool b)))
       \<and> (typeMap columns k = Some TBoolean
            \<and> v \<in> {JSNum (Finite 1), JSStr ''1'', JSNum (Finite 0), JSStr ''0''} \<longrightarrow>
            validateKey isoStr columns (h r) k = Inl (UserError (TypeMismatch v TBoolean)))
       \<and> ((\<forall>k' \<in> set (keys (h r)). k' \<noteq> k \<longrightarrow> acceptedKey columns (h r) k') \<longrightarrow>
            (v = JSNull \<longrightarrow> fst (validateRows isoStr co db dataStoreId [r] h) = Inr ())
          \<and> (typeMap columns k = Some TBoolean \<longrightarrow>
               (fst (validateRows isoStr co db dataStoreId [r] h) = Inr ()
                  \<longleftrightarrow> v = JSNull \<or> (\<exists>b. v = JSBool b)))
          \<and> (typeMap columns k = Some TBoolean
               \<and> v \<in> {JSNum (Finite 1), JSStr ''1'', JSNum (Finite 0), JSStr ''0''} \<longrightarrow>
               fst (validateRows isoStr co db dataStoreId [r] h)
                 = Inl (UserError (TypeMismatch v TBoolean)))
          \<and> (typeMap columns k = Some TBoolean
               \<and> v \<noteq> JSNull \<and> (\<forall>b. v \<noteq> JSBool b) \<and> v \<noteq> JSUndefined
               \<and> (\<forall>a. v \<noteq> JSObject a) \<longrightarrow>
               fst (validateRows isoStr co db dataStoreId [r] h)
                 = Inl (UserError (TypeMismatch v TBoolean))))"
proof -
  let ?res = "fst (validateRows isoStr co db dataStoreId [r] h)"
  have res: "?res = fst (validateRow isoStr columns (h r))"
    using cols(1,2) by (rule validateRows_single)
  have len: "length columns = length (h r)"
    using wf cols(3) ks by (rule schema_keys_length)
  have g: "getProp (h r) k = v" using wf cell by (rule getProp_entry)
  have kk: "k \<in> set (keys (h r))" using cell by (force simp: keys_def)
  then have known: "k \<in> set (map name columns)" using ks by (simp add: hasSchemaKeys_def)
  then obtain t where t: "typeMap columns k = Some t"
    using typeMap_None_iff [of columns k] by auto
  have stop: "validateKey isoStr columns (h r) k = Inl (UserError (TypeMismatch v TBoolean))"
    if "typeMap columns k = Some TBoolean" "v \<noteq> JSNull" "\<forall>b. v \<noteq> JSBool b" "v \<noteq> JSUndefined"
  proof -
    have "typeof v \<noteq> ''boolean''" using that(3) by (cases v) auto
    then show ?thesis
      using known g that by (simp add: validateKey_def mismatch_toString_def)
  qed
  have k1: "v = JSNull \<longrightarrow> validateKey isoStr columns (h r) k = Inr (h r)"
    using known g by (simp add: validateKey_def)
  have k2: "typeMap columns k = Some TBoolean \<and> v \<noteq> JSNull \<longrightarrow>
            ((\<exists>row'. validateKey isoStr columns (h r) k = Inr row') \<longleftrightarrow> (\<exists>b. v = JSBool b))"
    using known g by (cases v) (auto simp: validateKey_def)
  have k3: "typeMap columns k = Some TBoolean
            \<and> v \<in> {JSNum (Finite 1), JSStr ''1'', JSNum (Finite 0), JSStr ''0''} \<longrightarrow>
            validateKey isoStr columns (h r) k = Inl (UserError (TypeMismatch v TBoolean))"
    using stop by auto
  have rowlevel: "(v = JSNull \<longrightarrow> ?res = Inr ())
          \<and> (typeMap columns k = Some TBoolean \<longrightarrow>
               (?res = Inr () \<longleftrightarrow> v = JSNull \<or> (\<exists>b. v = JSBool b)))
          \<and> (typeMap columns k = Some TBoolean
               \<and> v \<in> {JSNum (Finite 1), JSStr ''1'', JSNum (Finite 0), JSStr ''0''} \<longrightarrow>
               ?res = Inl (UserError (TypeMismatch v TBoolean)))
          \<and> (typeMap columns k = Some TBoolean
               \<and> v \<noteq> JSNull \<and> (\<forall>b. v \<noteq> JSBool b) \<and> v \<noteq> JSUndefined
               \<and> (\<forall>a. v \<noteq> JSObject a) \<longrightarrow>
               ?res = Inl (UserError (TypeMismatch v TBoolean)))"
    if others: "\<forall>k' \<in> set (keys (h r)). k' \<noteq> k \<longrightarrow> acceptedKey columns (h r) k'"
  proof -
    have iff: "?res = Inr () \<longleftrightarrow> accepted t v"
    proof -
      have "(\<forall>k' \<in> set (keys (h r)). acceptedKey columns (h r) k') \<longleftrightarrow> acceptedKey columns (h r) k"
        using others kk by auto
      then show ?thesis
        by (simp add: res validateRow_Inr_iff(1) [OF wf] len acceptedKey_def t g)
    qed
    have null: "v = JSNull \<longrightarrow> ?res = Inr ()"
      by (simp add: iff)
    have bool: "typeMap columns k = Some TBoolean \<longrightarrow>
                  (?res = Inr () \<longleftrightarrow> v = JSNull \<or> (\<exists>b. v = JSBool b))"
      using t by (cases v) (auto simp: iff)
    have reject: "typeMap columns k = Some TBoolean
              \<and> v \<noteq> JSNull \<and> (\<forall>b. v \<noteq> JSBool b) \<and> v \<noteq> JSUndefined
               \<and> (\<forall>a. v \<noteq> JSObject a) \<longrightarrow>
              ?res = Inl (UserError (TypeMismatch v TBoolean))"
    proof (intro impI, elim conjE)
      assume tb: "typeMap columns k = Some TBoolean" and nn: "v \<noteq> JSNull"
        and nb: "\<forall>b. v \<noteq> JSBool b" and nu: "v \<noteq> JSUndefined"
      from cell obtain pre post where split: "h r = pre @ (k, v) # post"
        by (auto dest: split_list)
      have "k \<notin> fst ` set pre" using wf split by (auto simp: wf_row_def)
      then have acc: "\<forall>k' \<in> fst ` set pre. acceptedKey columns (h r) k'"
        using others split by (auto simp: keys_def)
      from validateRow_first_failure [OF wf split len acc stop [OF tb nn nb nu]]
      show "?res = Inl (UserError (TypeMismatch v TBoolean))"
        by (simp add: res)
    qed
    have coerced: "typeMap columns k = Some TBoolean
              \<and> v \<in> {JSNum (Finite 1), JSStr ''1'', JSNum (Finite 0), JSStr ''0''} \<longrightarrow>
              ?res = Inl (UserError (TypeMismatch v TBoolean))"
      using reject by auto
    show ?thesis by (intro conjI null bool coerced reject)
  qed
  show ?thesis
    by (intro conjI k1 k2 k3 impI rowlevel)
qed

theorem validateRows_null_and_boolean_witness:
  "getColumns orders_co [] ''orders'' = orders_columns \<and> orders_columns \<noteq> []
   \<and> distinct (map name orders_columns)
   \<and> wf_row one_row \<and> hasSchemaKeys orders_columns one_row
   \<and> (''paid'', JSNum (Finite 1)) \<in> set one_row
   \<and> acceptedKey orders_columns one_row ''total'' \<and> acceptedKey orders_columns one_row ''at''
   \<and> acceptedKey orders_columns one_row ''note''
   \<and> typeMap orders_columns ''paid'' = Some TBoolean
   \<and> JSNum (Finite 1) \<in> {JSNum (Finite 1), JSStr ''1'', JSNum (Finite 0), JSStr ''0''}
   \<and> validateKey isoString_ecma orders_columns one_row ''paid''
       = Inl (UserError (TypeMismatch (JSNum (Finite 1)) TBoolean))
   \<and> fst (validateRows isoString_ecma orders_co [] ''orders'' [0] (heap_of [one_row]))
       = Inl (UserError (TypeMismatch (JSNum (Finite 1)) TBoolean))
   \<and> wf_row null_row \<and> hasSchemaKeys orders_columns null_row
   \<and> (''at'', JSNull) \<in> set null_row
   \<and> acceptedKey orders_columns null_row ''total'' \<and> acceptedKey orders_columns null_row ''paid''
   \<and> acceptedKey orders_columns null_row ''note''
   \<and> validateKey isoString_ecma orders_columns null_row ''at'' = Inr null_row
   \<and> fst (validateRows isoString_ecma orders_co [] ''orders'' [0] (heap_of [null_row])) = Inr ()"
proof -
  have cols: "getColumns orders_co [] ''orders'' = orders_columns" "orders_columns \<noteq> []"
    "distinct (map name orders_columns)"
    by (simp_all add: orders_co_def orders_columns_def)
  have one: "wf_row one_row" "hasSchemaKeys orders_columns one_row"
    "(''paid'', JSNum (Finite 1)) \<in> set one_row"
    "acceptedKey orders_columns one_row ''total''" "acceptedKey orders_columns one_row ''at''"
    "acceptedKey orders_columns one_row ''note''"
    by code_simp+
  have nul: "wf_row null_row" "hasSchemaKeys orders_columns null_row"
    "(''at'', JSNull) \<in> set null_row"
    "acceptedKey orders_columns null_row ''total''" "acceptedKey orders_columns null_row ''paid''"
    "acceptedKey orders_columns null_row ''note''"
    by code_simp+
  have h1: "heap_of [one_row] 0 = one_row" and h2: "heap_of [null_row] 0 = null_row"
    by (simp_all add: heap_of_def)
  have o1: "\<forall>k' \<in> set (keys (heap_of [one_row] 0)).
              k' \<noteq> ''paid'' \<longrightarrow> acceptedKey orders_columns (heap_of [one_row] 0) k'"
    unfolding h1 using one by (simp add: keys_def one_row_def)
  have o2: "\<forall>k' \<in> set (keys (heap_of [null_row] 0)).
              k' \<noteq> ''at'' \<longrightarrow> acceptedKey orders_columns (heap_of [null_row] 0) k'"
    unfolding h2 using nul by (simp add: keys_def null_row_def)
  have in1: "JSNum (Finite 1) \<in> {JSNum (Finite 1), JSStr ''1'', JSNum (Finite 0), JSStr ''0''}"
    by simp
  have w1: "wf_row (heap_of [one_row] 0)" "hasSchemaKeys orders_columns (heap_of [one_row] 0)"
    "(''paid'', JSNum (Finite 1)) \<in> set (heap_of [one_row] 0)"
    unfolding h1 by (rule one)+
  have w2: "wf_row (heap_of [null_row] 0)" "hasSchemaKeys orders_columns (heap_of [null_row] 0)"
    "(''at'', JSNull) \<in> set (heap_of [null_row] 0)"
    unfolding h2 by (rule nul)+
  note t1 = validateRows_null_and_boolean
    [where h = "heap_of [one_row]" and r = 0 and isoStr = isoString_ecma, OF cols w1]
  note t2 = validateRows_null_and_boolean
    [where h = "heap_of [null_row]" and r = 0 and isoStr = isoString_ecma, OF cols w2]
  have a: "validateKey isoString_ecma orders_columns one_row ''paid''
             = Inl (UserError (TypeMismatch (JSNum (Finite 1)) TBoolean))"
    using t1 typeMap_orders(1) in1 unfolding h1 by (elim conjE) simp
  have b: "fst (validateRows isoString_ecma orders_co [] ''orders'' [0] (heap_of [one_row]))
             = Inl (UserError (TypeMismatch (JSNum (Finite 1)) TBoolean))"
    using t1 typeMap_orders(1) in1 o1 by (elim conjE) simp
  have c: "validateKey isoString_ecma orders_columns null_row ''at'' = Inr null_row"
    using t2 unfolding h2 by (elim conjE) simp
  have d: "fst (validateRows isoString_ecma orders_co [] ''orders'' [0] (heap_of [null_row])) = Inr ()"
    using t2 o2 by (elim conjE) simp
  show ?thesis
    by (intro conjI cols one nul typeMap_orders(1) in1 a b c d)
qed

section \<open>The service operations\<close>

text \<open>
  C9. \<open>createDataStore\<close> raises the duplicate-name error exactly when the repository
  holds a data store of that name in that project, the database is then as it was and
  nothing is created; otherwise, whatever other projects hold, the result is the
  repository's.
\<close>

theorem createDataStore_duplicate_name:
  "createDataStore repo pid dto db =
     (if \<exists>e \<in> set (entities repo db). store_name e = dto_name dto \<and> projectId e = pid
      then (Inl (UserError (NameAlreadyExists (dto_name dto))), db)
      else (case repo_createDataStore repo pid (dto_name dto) (dto_columns dto) db of
              (res, db') \<Rightarrow> (Inr res, db')))
   \<and> ((\<exists>x. fst (createDataStore repo pid dto db) = Inl x)
        \<longleftrightarrow> (\<exists>e \<in> set (entities repo db). store_name e = dto_name dto \<and> projectId e = pid))"
proof -
  have f: "findOneBy_name_projectId repo db (dto_name dto) pid \<noteq> None
           \<longleftrightarrow> (\<exists>e \<in> set (entities repo db). store_name e = dto_name dto \<and> projectId e = pid)"
    by (auto simp: findOneBy_name_projectId_def find_None_iff)
  show ?thesis
    unfolding createDataStore_def Let_def f
    by (auto split: prod.splits)
qed

theorem createDataStore_duplicate_name_witness:
  "createDataStore list_repo ''P1'' orders_dto [] = (Inr orders_P1, [orders_P1])
   \<and> createDataStore list_repo ''P1'' orders_dto [orders_P1]
       = (Inl (UserError (NameAlreadyExists ''orders'')), [orders_P1])
   \<and> createDataStore list_repo ''P2'' orders_dto [orders_P1]
       = (Inr orders_P2, [orders_P1, orders_P2])"
  using createDataStore_duplicate_name [of list_repo "''P1''" orders_dto "[]"]
    createDataStore_duplicate_name [of list_repo "''P1''" orders_dto "[orders_P1]"]
    createDataStore_duplicate_name [of list_repo "''P2''" orders_dto "[orders_P1]"]
  by (simp add: list_repo_def orders_dto_def orders_P1_def orders_P2_def)

lemma validateRows_rejects:
  assumes wf: "\<forall>x \<in> set rows. wf_row (h x)" and r: "r \<in> set rows"
    and bad: "fst (validateRow isoStr (getColumns co db dataStoreId) (h r)) \<noteq> Inr ()"
  shows "\<exists>e. fst (validateRows isoStr co db dataStoreId rows h) = Inl e"
proof (cases "getColumns co db dataStoreId = []")
  case True
  then show ?thesis by (simp add: validateRows_def)
next
  case False
  then show ?thesis
    using validateBatch_rejects [OF wf r bad]
    by (simp add: validateRows_nonempty [OF refl False])
qed

text \<open>
  C8. A write is all or nothing. If a row of the batch does not pass validation, or
  \<open>validateRows\<close> raises for any other reason, \<open>insertRows\<close> and \<open>upsertRows\<close> raise and the
  database is as it was, whatever the row repository would do: it is not called. When
  \<open>validateRows\<close> passes the whole batch, the result and the new database are the row
  repository's.
\<close>

theorem writes_all_or_nothing:
  assumes wf: "\<forall>x \<in> set rows. wf_row (h x)"
  shows "((\<exists>r \<in> set rows. fst (validateRow isoStr (getColumns co db dataStoreId) (h r)) \<noteq> Inr ())
          \<longrightarrow> (\<exists>e h'. insertRows isoStr co dataStoreId rows (h, db) = (Inl e, h', db))
              \<and> (\<exists>e h'. upsertRows isoStr co dataStoreId (rows, dto) (h, db) = (Inl e, h', db)))
       \<and> (\<forall>e h'. validateRows isoStr co db dataStoreId rows h = (Inl e, h')
          \<longrightarrow> insertRows isoStr co dataStoreId rows (h, db) = (Inl e, h', db)
              \<and> upsertRows isoStr co dataStoreId (rows, dto) (h, db) = (Inl e, h', db))
       \<and> (\<forall>h'. validateRows isoStr co db dataStoreId rows h = (Inr (), h')
          \<longrightarrow> insertRows isoStr co dataStoreId rows (h, db)
                = (case repo_insertRows co (toTableName co dataStoreId) (map h' rows)
                          (getColumns co db dataStoreId) db of
                     (res, db') \<Rightarrow> (Inr res, h', db'))
              \<and> upsertRows isoStr co dataStoreId (rows, dto) (h, db)
                = (case repo_upsertRows co (toTableName co dataStoreId) (map h' rows, dto)
                          (getColumns co db dataStoreId) db of
                     (res, db') \<Rightarrow> (Inr res, h', db')))"
proof (intro conjI allI impI)
  fix e h'
  assume v: "validateRows isoStr co db dataStoreId rows h = (Inl e, h')"
  show "insertRows isoStr co dataStoreId rows (h, db) = (Inl e, h', db)"
    by (simp add: insertRows_def v)
  show "upsertRows isoStr co dataStoreId (rows, dto) (h, db) = (Inl e, h', db)"
    by (simp add: upsertRows_def v)
next
  fix h'
  assume v: "validateRows isoStr co db dataStoreId rows h = (Inr (), h')"
  show "insertRows isoStr co dataStoreId rows (h, db)
                = (case repo_insertRows co (toTableName co dataStoreId) (map h' rows)
                          (getColumns co db dataStoreId) db of
                     (res, db') \<Rightarrow> (Inr res, h', db'))"
    by (simp add: insertRows_def v split: prod.splits)
  show "upsertRows isoStr co dataStoreId (rows, dto) (h, db)
                = (case repo_upsertRows co (toTableName co dataStoreId) (map h' rows, dto)
                          (getColumns co db dataStoreId) db of
                     (res, db') \<Rightarrow> (Inr res, h', db'))"
    by (simp add: upsertRows_def v split: prod.splits)
next
  assume "\<exists>r \<in> set rows. fst (validateRow isoStr (getColumns co db dataStoreId) (h r)) \<noteq> Inr ()"
  then obtain r where r: "r \<in> set rows"
    and bad: "fst (validateRow isoStr (getColumns co db dataStoreId) (h r)) \<noteq> Inr ()"
    by (elim bexE)
  from validateRows_rejects [OF wf r bad]
  obtain e where "fst (validateRows isoStr co db dataStoreId rows h) = Inl e"
    by (elim exE)
  then obtain h' where v: "validateRows isoStr co db dataStoreId rows h = (Inl e, h')"
    by (cases "validateRows isoStr co db dataStoreId rows h") simp
  show "\<exists>e h'. insertRows isoStr co dataStoreId rows (h, db) = (Inl e, h', db)"
    by (simp add: insertRows_def v)
  show "\<exists>e h'. upsertRows isoStr co dataStoreId (rows, dto) (h, db) = (Inl e, h', db)"
    by (simp add: upsertRows_def v)
qed

theorem writes_all_or_nothing_witness:
  "wf_row canonical_row \<and> wf_row yes_row
   \<and> fst (validateRow isoString_ecma (getColumns orders_co [] ''orders'') yes_row) \<noteq> Inr ()
   \<and> fst (insertRows isoString_ecma orders_co ''orders'' [0, 1]
            (heap_of [canonical_row, yes_row], []))
       = Inl (UserError (TypeMismatch (JSStr ''yes'') TBoolean))
   \<and> snd (snd (insertRows isoString_ecma orders_co ''orders'' [0, 1]
                  (heap_of [canonical_row, yes_row], []))) = []
   \<and> snd (snd (upsertRows isoString_ecma orders_co ''orders'' ([0, 1], [''paid''])
                  (heap_of [canonical_row, yes_row], []))) = []
   \<and> fst (insertRows isoString_ecma orders_co ''orders'' [0] (heap_of [canonical_row], []))
       = Inr 1
   \<and> snd (snd (insertRows isoString_ecma orders_co ''orders'' [0] (heap_of [canonical_row], [])))
       = [(''table_orders'', [stored_row])]"
proof -
  let ?h = "heap_of [canonical_row, yes_row]"
  have wfs: "wf_row canonical_row" "wf_row yes_row" by code_simp+
  have wf: "\<forall>x \<in> set [0, 1]. wf_row (?h x)" using wfs by (simp add: heap_of_def)
  have bad: "fst (validateRow isoString_ecma (getColumns orders_co [] ''orders'') yes_row) \<noteq> Inr ()"
    by code_simp
  then have ex: "\<exists>r \<in> set [0, 1].
      fst (validateRow isoString_ecma (getColumns orders_co [] ''orders'') (?h r)) \<noteq> Inr ()"
    by (simp add: heap_of_def)
  note all = writes_all_or_nothing [OF wf, of isoString_ecma orders_co "[]" "''orders''" "[''paid'']"]
  from all ex have "\<exists>e h'. insertRows isoString_ecma orders_co ''orders'' [0, 1] (?h, []) = (Inl e, h', [])"
    by (elim conjE) simp
  then have i: "snd (snd (insertRows isoString_ecma orders_co ''orders'' [0, 1] (?h, []))) = []"
    by auto
  from all ex have "\<exists>e h'. upsertRows isoString_ecma orders_co ''orders'' ([0, 1], [''paid''])
                             (?h, []) = (Inl e, h', [])"
    by (elim conjE) simp
  then have u: "snd (snd (upsertRows isoString_ecma orders_co ''orders'' ([0, 1], [''paid''])
                            (?h, []))) = []"
    by auto
  have e: "fst (insertRows isoString_ecma orders_co ''orders'' [0, 1] (?h, []))
             = Inl (UserError (TypeMismatch (JSStr ''yes'') TBoolean))"
    by code_simp
  have p: "fst (insertRows isoString_ecma orders_co ''orders'' [0] (heap_of [canonical_row], []))
             = Inr 1"
    "snd (snd (insertRows isoString_ecma orders_co ''orders'' [0] (heap_of [canonical_row], [])))
       = [(''table_orders'', [stored_row])]"
    by code_simp+
  show ?thesis using wfs bad i u e p by simp
qed

section \<open>What a failed validation leaves behind\<close>

lemma validateBatch_Inl:
  assumes "\<forall>x \<in> set rs. wf_row (h x)" and "validateBatch isoStr columns rs h = (Inl e, h')"
  shows "\<exists>rs1 r rs2 row'. rs = rs1 @ r # rs2
           \<and> fst (validateBatch isoStr columns rs1 h) = Inr ()
           \<and> validateRow isoStr columns (storedHeap isoStr columns (set rs1) h r) = (Inl e, row')
           \<and> h' = (storedHeap isoStr columns (set rs1) h)(r := row')"
  using assms
proof (induction rs arbitrary: h)
  case Nil
  then show ?case by simp
next
  case (Cons r0 rs)
  obtain res row1 where v: "validateRow isoStr columns (h r0) = (res, row1)"
    by (cases "validateRow isoStr columns (h r0)")
  show ?case
  proof (cases res)
    case (Inl e0)
    with v Cons.prems(2) have "r0 # rs = [] @ r0 # rs
           \<and> fst (validateBatch isoStr columns [] h) = Inr ()
           \<and> validateRow isoStr columns (storedHeap isoStr columns (set []) h r0) = (Inl e, row1)
           \<and> h' = (storedHeap isoStr columns (set []) h)(r0 := row1)"
      by auto
    then show ?thesis by (intro exI)
  next
    case (Inr u)
    have wf0: "wf_row (h r0)" using Cons.prems(1) by simp
    from v Inr have ok0: "fst (validateRow isoStr columns (h r0)) = Inr ()" by simp
    then have row1: "row1 = storedRow isoStr columns (h r0)"
      using validateRow_Inr_iff(2) [OF wf0, of isoStr columns] v by simp
    let ?h1 = "h(r0 := storedRow isoStr columns (h r0))"
    have wf1: "\<forall>r \<in> set rs. wf_row (?h1 r)" using Cons.prems(1) by simp
    have step: "\<And>xs. validateBatch isoStr columns (r0 # xs) h = validateBatch isoStr columns xs ?h1"
      using v Inr row1 by simp
    from Cons.prems(2) have "validateBatch isoStr columns rs ?h1 = (Inl e, h')"
      by (simp only: step)
    from Cons.IH [OF wf1 this] obtain rs1 r rs2 row' where split: "rs = rs1 @ r # rs2"
      and pre: "fst (validateBatch isoStr columns rs1 ?h1) = Inr ()"
      and stop: "validateRow isoStr columns (storedHeap isoStr columns (set rs1) ?h1 r)
                   = (Inl e, row')"
      and res: "h' = (storedHeap isoStr columns (set rs1) ?h1)(r := row')"
      by (elim exE conjE)
    have "r0 # rs = (r0 # rs1) @ r # rs2
           \<and> fst (validateBatch isoStr columns (r0 # rs1) h) = Inr ()
           \<and> validateRow isoStr columns (storedHeap isoStr columns (set (r0 # rs1)) h r)
               = (Inl e, row')
           \<and> h' = (storedHeap isoStr columns (set (r0 # rs1)) h)(r := row')"
      using split pre stop res by (simp only: step) (simp add: storedHeap_step)
    then show ?thesis by (intro exI)
  qed
qed

lemma validateRow_Inl:
  assumes wf: "wf_row row" and fail: "validateRow isoStr columns row = (Inl e, row')"
  shows "\<exists>n. n \<le> length row
           \<and> row' = storedRow isoStr columns (take n row) @ drop n row
           \<and> ((n = 0 \<and> e = UserError MismatchedKeyCount)
              \<or> (n < length row \<and> validateKey isoStr columns row' (keys row ! n) = Inl e))"
proof (cases "length columns = length row")
  case False
  with fail have "0 \<le> length row
           \<and> row' = storedRow isoStr columns (take 0 row) @ drop 0 row
           \<and> ((0 = (0::nat) \<and> e = UserError MismatchedKeyCount)
              \<or> (0 < length row \<and> validateKey isoStr columns row' (keys row ! 0) = Inl e))"
    by (auto simp: validateRow_def keys_def storedRow_def)
  then show ?thesis by (intro exI)
next
  case True
  with fail have f: "validateKeys isoStr columns (keys row) row = (Inl e, row')"
    by (simp add: validateRow_def keys_def)
  from validateKeys_cases [OF wf, of isoStr columns "keys row"] f
  obtain ks1 k ks2 where split: "keys row = ks1 @ k # ks2"
    and stop: "validateKey isoStr columns (storedKeys isoStr columns (set ks1) row) k = Inl e"
    and res: "row' = storedKeys isoStr columns (set ks1) row"
    by auto
  let ?n = "length ks1"
  have "length (keys row) = length ks1 + Suc (length ks2)"
    by (simp add: split)
  then have n: "?n < length row" by (simp add: keys_def)
  have ks1: "ks1 = map fst (take ?n row)"
    using arg_cong [OF split, of "take ?n"] by (simp add: keys_def take_map)
  have k: "keys row ! ?n = k" by (simp add: split)
  have "wf_row (take ?n row @ drop ?n row)" using wf by simp
  from storedKeys_prefix [OF this, of isoStr columns]
  have "storedKeys isoStr columns (set ks1) row
          = storedRow isoStr columns (take ?n row) @ drop ?n row"
    using ks1 by (metis append_take_drop_id set_map)
  with res have row': "row' = storedRow isoStr columns (take ?n row) @ drop ?n row" by simp
  have "?n \<le> length row
           \<and> row' = storedRow isoStr columns (take ?n row) @ drop ?n row
           \<and> ((?n = 0 \<and> e = UserError MismatchedKeyCount)
              \<or> (?n < length row \<and> validateKey isoStr columns row' (keys row ! ?n) = Inl e))"
    using n row' stop res k by simp
  then show ?thesis by (intro exI)
qed

lemma storedRow_changes:
  assumes wf: "wf_row row" and cell: "(k, JSDate (DateAt ms)) \<in> set row"
    and t: "typeMap columns k = Some TDate"
  shows "storedRow isoStr columns row \<noteq> row"
proof
  assume eq: "storedRow isoStr columns row = row"
  have "(k, JSStr (isoStr ms)) \<in> set (storedRow isoStr columns row)"
    using cell t by (force simp: storedRow_def)
  with eq have "(k, JSStr (isoStr ms)) \<in> set row" by simp
  then have "getProp row k = JSStr (isoStr ms)" using wf by (simp add: getProp_entry)
  moreover have "getProp row k = JSDate (DateAt ms)" using wf cell by (simp add: getProp_entry)
  ultimately show False by simp
qed

lemma storedRow_take_drop:
  "storedRow isoStr columns (take n (storedRow isoStr columns row))
     @ drop n (storedRow isoStr columns row) = storedRow isoStr columns row"
proof -
  have "storedRow isoStr columns (take n (storedRow isoStr columns row))
          = take n (storedRow isoStr columns (storedRow isoStr columns row))"
    by (simp add: storedRow_def take_map)
  then show ?thesis by simp
qed

text \<open>
  C10. \<open>validateRows\<close> assigns to the caller's row objects, and \<open>insertRows\<close> and
  \<open>upsertRows\<close> raise what it raises and leave the objects as it left them. When it
  raises, on the row
  \<open>r\<close> after the rows \<open>rs1\<close> and at the key number \<open>n\<close> of that row (or at the key count,
  with \<open>n = 0\<close>), every row before \<open>r\<close> already has its stored form, the first \<open>n\<close> cells
  of \<open>r\<close> have theirs, and nothing else has changed: each date under a date column that
  was looked at before the exception is now an ISO-8601 string, so a row that held such
  a date is not what it was.
\<close>

theorem validateRows_mutates_on_failure:
  assumes cols: "getColumns co db dataStoreId = columns" "columns \<noteq> []"
    and wf: "\<forall>x \<in> set rows. wf_row (h x)"
    and fail: "validateRows isoStr co db dataStoreId rows h = (Inl e, h')"
  shows "insertRows isoStr co dataStoreId rows (h, db) = (Inl e, h', db)
    \<and> upsertRows isoStr co dataStoreId (rows, dto) (h, db) = (Inl e, h', db)
    \<and> (\<exists>rs1 r rs2 n. rows = rs1 @ r # rs2
      \<and> fst (validateRows isoStr co db dataStoreId rs1 h) = Inr ()
      \<and> n \<le> length (h r)
      \<and> ((n = 0 \<and> e = UserError MismatchedKeyCount)
         \<or> (n < length (h r) \<and> validateKey isoStr columns (h' r) (keys (h r) ! n) = Inl e))
      \<and> (\<forall>x \<in> set rs1. x \<noteq> r \<longrightarrow> h' x = storedRow isoStr columns (h x))
      \<and> (r \<notin> set rs1 \<longrightarrow> h' r = storedRow isoStr columns (take n (h r)) @ drop n (h r))
      \<and> (r \<in> set rs1 \<longrightarrow> h' r = storedRow isoStr columns (h r))
      \<and> (\<forall>x. x \<notin> set rs1 \<and> x \<noteq> r \<longrightarrow> h' x = h x)
      \<and> (\<forall>x \<in> set rs1. \<forall>k ms. x \<noteq> r \<and> (k, JSDate (DateAt ms)) \<in> set (h x)
            \<and> typeMap columns k = Some TDate \<longrightarrow> h' x \<noteq> h x))"
proof -
  have ins: "insertRows isoStr co dataStoreId rows (h, db) = (Inl e, h', db)"
    by (simp add: insertRows_def fail)
  have ups: "upsertRows isoStr co dataStoreId (rows, dto) (h, db) = (Inl e, h', db)"
    by (simp add: upsertRows_def fail)
  from fail have f: "validateBatch isoStr columns rows h = (Inl e, h')"
    by (simp add: validateRows_nonempty [OF cols])
  from validateBatch_Inl [OF wf f] obtain rs1 r rs2 row' where split: "rows = rs1 @ r # rs2"
    and pre: "fst (validateBatch isoStr columns rs1 h) = Inr ()"
    and stop: "validateRow isoStr columns (storedHeap isoStr columns (set rs1) h r) = (Inl e, row')"
    and res: "h' = (storedHeap isoStr columns (set rs1) h)(r := row')"
    by (elim exE conjE)
  let ?base = "storedHeap isoStr columns (set rs1) h r"
  have wfr: "wf_row (h r)" using wf split by simp
  then have wfb: "wf_row ?base" by (simp add: storedHeap_def)
  from validateRow_Inl [OF wfb stop] obtain n where n: "n \<le> length ?base"
    and row': "row' = storedRow isoStr columns (take n ?base) @ drop n ?base"
    and why: "(n = 0 \<and> e = UserError MismatchedKeyCount)
              \<or> (n < length ?base \<and> validateKey isoStr columns row' (keys ?base ! n) = Inl e)"
    by (elim exE conjE)
  have lenb: "length ?base = length (h r)" by (simp add: storedHeap_def storedRow_def)
  have hr: "h' r = row'" by (simp add: res)
  have c1: "fst (validateRows isoStr co db dataStoreId rs1 h) = Inr ()"
    using pre by (simp add: validateRows_nonempty [OF cols])
  have c2: "n \<le> length (h r)" using n lenb by simp
  have c3: "(n = 0 \<and> e = UserError MismatchedKeyCount)
         \<or> (n < length (h r) \<and> validateKey isoStr columns (h' r) (keys (h r) ! n) = Inl e)"
    using why lenb hr by simp
  have c4: "\<forall>x \<in> set rs1. x \<noteq> r \<longrightarrow> h' x = storedRow isoStr columns (h x)"
    by (simp add: res storedHeap_def)
  have c5: "r \<notin> set rs1 \<longrightarrow> h' r = storedRow isoStr columns (take n (h r)) @ drop n (h r)"
    using hr row' by (simp add: storedHeap_def)
  have c6: "r \<in> set rs1 \<longrightarrow> h' r = storedRow isoStr columns (h r)"
    using hr row' by (simp add: storedHeap_def storedRow_take_drop)
  have c7: "\<forall>x. x \<notin> set rs1 \<and> x \<noteq> r \<longrightarrow> h' x = h x"
    by (simp add: res storedHeap_def)
  have c8: "\<forall>x \<in> set rs1. \<forall>k ms. x \<noteq> r \<and> (k, JSDate (DateAt ms)) \<in> set (h x)
            \<and> typeMap columns k = Some TDate \<longrightarrow> h' x \<noteq> h x"
  proof (intro ballI allI impI, elim conjE)
    fix x k ms
    assume x: "x \<in> set rs1" "x \<noteq> r" and cell: "(k, JSDate (DateAt ms)) \<in> set (h x)"
      and t: "typeMap columns k = Some TDate"
    have "wf_row (h x)" using wf split x by simp
    from storedRow_changes [OF this cell t, of isoStr] c4 x
    show "h' x \<noteq> h x" by simp
  qed
  have "rows = rs1 @ r # rs2
      \<and> fst (validateRows isoStr co db dataStoreId rs1 h) = Inr ()
      \<and> n \<le> length (h r)
      \<and> ((n = 0 \<and> e = UserError MismatchedKeyCount)
         \<or> (n < length (h r) \<and> validateKey isoStr columns (h' r) (keys (h r) ! n) = Inl e))
      \<and> (\<forall>x \<in> set rs1. x \<noteq> r \<longrightarrow> h' x = storedRow isoStr columns (h x))
      \<and> (r \<notin> set rs1 \<longrightarrow> h' r = storedRow isoStr columns (take n (h r)) @ drop n (h r))
      \<and> (r \<in> set rs1 \<longrightarrow> h' r = storedRow isoStr columns (h r))
      \<and> (\<forall>x. x \<notin> set rs1 \<and> x \<noteq> r \<longrightarrow> h' x = h x)
      \<and> (\<forall>x \<in> set rs1. \<forall>k ms. x \<noteq> r \<and> (k, JSDate (DateAt ms)) \<in> set (h x)
            \<and> typeMap columns k = Some TDate \<longrightarrow> h' x \<noteq> h x)"
    by (intro conjI split c1 c2 c3 c4 c5 c6 c7 c8)
  then have "\<exists>rs1 r rs2 n. rows = rs1 @ r # rs2
      \<and> fst (validateRows isoStr co db dataStoreId rs1 h) = Inr ()
      \<and> n \<le> length (h r)
      \<and> ((n = 0 \<and> e = UserError MismatchedKeyCount)
         \<or> (n < length (h r) \<and> validateKey isoStr columns (h' r) (keys (h r) ! n) = Inl e))
      \<and> (\<forall>x \<in> set rs1. x \<noteq> r \<longrightarrow> h' x = storedRow isoStr columns (h x))
      \<and> (r \<notin> set rs1 \<longrightarrow> h' r = storedRow isoStr columns (take n (h r)) @ drop n (h r))
      \<and> (r \<in> set rs1 \<longrightarrow> h' r = storedRow isoStr columns (h r))
      \<and> (\<forall>x. x \<notin> set rs1 \<and> x \<noteq> r \<longrightarrow> h' x = h x)
      \<and> (\<forall>x \<in> set rs1. \<forall>k ms. x \<noteq> r \<and> (k, JSDate (DateAt ms)) \<in> set (h x)
            \<and> typeMap columns k = Some TDate \<longrightarrow> h' x \<noteq> h x)"
    by (intro exI)
  with ins ups show ?thesis by (intro conjI)
qed

theorem validateRows_mutates_on_failure_witness:
  "getColumns orders_co [] ''orders'' = orders_columns \<and> orders_columns \<noteq> []
   \<and> wf_row (failing_batch 0) \<and> wf_row (failing_batch 1)
   \<and> fst (validateRows isoString_ecma orders_co [] ''orders'' [0, 1] failing_batch)
       = Inl (UserError (TypeMismatch (JSStr ''yes'') TBoolean))
   \<and> failing_batch 0 = canonical_row
   \<and> snd (validateRows isoString_ecma orders_co [] ''orders'' [0, 1] failing_batch) 0 = stored_row
   \<and> stored_row \<noteq> canonical_row
   \<and> failing_batch 1 = late_fail_row
   \<and> snd (validateRows isoString_ecma orders_co [] ''orders'' [0, 1] failing_batch) 1
       = late_fail_row_after
   \<and> late_fail_row_after \<noteq> late_fail_row
   \<and> insertRows isoString_ecma orders_co ''orders'' [0, 1] (failing_batch, [])
       = (Inl (UserError (TypeMismatch (JSStr ''yes'') TBoolean)),
          snd (validateRows isoString_ecma orders_co [] ''orders'' [0, 1] failing_batch), [])
   \<and> upsertRows isoString_ecma orders_co ''orders'' ([0, 1], [''paid'']) (failing_batch, [])
       = (Inl (UserError (TypeMismatch (JSStr ''yes'') TBoolean)),
          snd (validateRows isoString_ecma orders_co [] ''orders'' [0, 1] failing_batch), [])
   \<and> (\<exists>rs1 r rs2 n. [0, 1] = rs1 @ r # rs2
      \<and> fst (validateRows isoString_ecma orders_co [] ''orders'' rs1 failing_batch) = Inr ()
      \<and> n \<le> length (failing_batch r)
      \<and> ((n = 0 \<and> UserError (TypeMismatch (JSStr ''yes'') TBoolean) = UserError MismatchedKeyCount)
         \<or> (n < length (failing_batch r)
            \<and> validateKey isoString_ecma orders_columns
                 (snd (validateRows isoString_ecma orders_co [] ''orders'' [0, 1] failing_batch) r)
                 (keys (failing_batch r) ! n)
                = Inl (UserError (TypeMismatch (JSStr ''yes'') TBoolean))))
      \<and> (\<forall>x \<in> set rs1. x \<noteq> r \<longrightarrow>
            snd (validateRows isoString_ecma orders_co [] ''orders'' [0, 1] failing_batch) x
              = storedRow isoString_ecma orders_columns (failing_batch x))
      \<and> (r \<notin> set rs1 \<longrightarrow>
            snd (validateRows isoString_ecma orders_co [] ''orders'' [0, 1] failing_batch) r
              = storedRow isoString_ecma orders_columns (take n (failing_batch r))
                  @ drop n (failing_batch r))
      \<and> (r \<in> set rs1 \<longrightarrow>
            snd (validateRows isoString_ecma orders_co [] ''orders'' [0, 1] failing_batch) r
              = storedRow isoString_ecma orders_columns (failing_batch r))
      \<and> (\<forall>x. x \<notin> set rs1 \<and> x \<noteq> r \<longrightarrow>
            snd (validateRows isoString_ecma orders_co [] ''orders'' [0, 1] failing_batch) x
              = failing_batch x)
      \<and> (\<forall>x \<in> set rs1. \<forall>k ms. x \<noteq> r \<and> (k, JSDate (DateAt ms)) \<in> set (failing_batch x)
            \<and> typeMap orders_columns k = Some TDate \<longrightarrow>
            snd (validateRows isoString_ecma orders_co [] ''orders'' [0, 1] failing_batch) x
              \<noteq> failing_batch x))"
proof -
  let ?v = "validateRows isoString_ecma orders_co [] ''orders'' [0, 1] failing_batch"
  have cols: "getColumns orders_co [] ''orders'' = orders_columns" "orders_columns \<noteq> []"
    by (simp_all add: orders_co_def orders_columns_def)
  have wfs: "wf_row (failing_batch 0)" "wf_row (failing_batch 1)" by code_simp+
  have wf: "\<forall>x \<in> set [0, 1]. wf_row (failing_batch x)" using wfs by simp
  have e: "fst ?v = Inl (UserError (TypeMismatch (JSStr ''yes'') TBoolean))" by code_simp
  then have fail: "?v = (Inl (UserError (TypeMismatch (JSStr ''yes'') TBoolean)), snd ?v)"
    by (simp add: prod_eq_iff)
  have vals: "failing_batch 0 = canonical_row" "snd ?v 0 = stored_row"
    "stored_row \<noteq> canonical_row" "failing_batch 1 = late_fail_row"
    "snd ?v 1 = late_fail_row_after" "late_fail_row_after \<noteq> late_fail_row"
    by code_simp+
  note t = validateRows_mutates_on_failure [OF cols wf fail, of "[''paid'']"]
  show ?thesis
    by (intro conjI cols wfs e vals t [THEN conjunct1] t [THEN conjunct2, THEN conjunct1]
          t [THEN conjunct2, THEN conjunct2])
qed

section \<open>Printing and reading a date\<close>

lemma div_lower: "0 < k \<Longrightarrow> k * (x div k) \<le> (x::int)"
  using mult_div_mod_eq [of k x] pos_mod_sign [of k x] by linarith

lemma div_upper: "0 < k \<Longrightarrow> (x::int) < k * (x div k) + k"
  using mult_div_mod_eq [of k x] pos_mod_bound [of k x] by linarith

lemma year_estimate:
  fixes day :: int
  defines "e \<equiv> (400 * day) div 146097"
  shows "DayFromYear (1970 + e - 1) \<le> day" and "day < DayFromYear (1970 + e + 2)"
proof -
  have e1: "146097 * e \<le> 400 * day" and e2: "400 * day < 146097 * e + 146097"
    unfolding e_def by (rule div_lower, simp) (rule div_upper, simp)
  define a b c where "a = e div 4" and "b = (e + 68) div 100" and "c = (e + 368) div 400"
  have a1: "4 * a \<le> e" unfolding a_def by (rule div_lower) simp
  have b1: "e + 68 < 100 * b + 100" unfolding b_def by (rule div_upper) simp
  have c1: "400 * c \<le> e + 368" unfolding c_def by (rule div_lower) simp
  have "DayFromYear (1970 + e - 1) = 365 * (e - 1) + a - b + c"
    by (simp add: DayFromYear_def algebra_simps a_def b_def c_def)
  moreover have "365 * (e - 1) + a - b + c \<le> day"
  proof -
    have "400 * a \<le> 100 * e" using a1 by simp
    moreover have "4 * e < 400 * b + 128" using b1 by simp
    ultimately have "400 * (365 * (e - 1) + a - b + c) \<le> 400 * day"
      using e1 c1 by simp
    then show ?thesis by simp
  qed
  ultimately show "DayFromYear (1970 + e - 1) \<le> day" by simp
  define a' b' c' where "a' = (e + 3) div 4" and "b' = (e + 71) div 100"
    and "c' = (e + 371) div 400"
  have a2: "e + 3 < 4 * a' + 4" unfolding a'_def by (rule div_upper) simp
  have b2: "100 * b' \<le> e + 71" unfolding b'_def by (rule div_lower) simp
  have c2: "e + 371 < 400 * c' + 400" unfolding c'_def by (rule div_upper) simp
  have "DayFromYear (1970 + e + 2) = 365 * (e + 2) + a' - b' + c'"
    by (simp add: DayFromYear_def algebra_simps a'_def b'_def c'_def)
  moreover have "day < 365 * (e + 2) + a' - b' + c'"
  proof -
    have "100 * e < 400 * a' + 100" using a2 by simp
    moreover have "400 * b' \<le> 4 * e + 284" using b2 by simp
    ultimately have "400 * day < 400 * (365 * (e + 2) + a' - b' + c')"
      using e2 c2 by simp
    then show ?thesis by simp
  qed
  ultimately show "day < DayFromYear (1970 + e + 2)" by simp
qed

lemma year_bracket:
  "DayFromYear (YearFromDay day) \<le> day \<and> day < DayFromYear (YearFromDay day + 1)"
  using year_estimate [of day]
  by (auto simp: YearFromDay_def Let_def algebra_simps)

lemma div_step: "0 < k \<Longrightarrow> (x + 1) div k \<le> x div k + (1::int)"
proof -
  assume k: "0 < k"
  then have "(x + 1) div k \<le> (x + k) div k" by (intro zdiv_mono1) simp_all
  also have "\<dots> = x div k + 1" using k by simp
  finally show ?thesis .
qed

lemma div_mono1: "0 < k \<Longrightarrow> x div k \<le> (x + 1) div (k::int)"
  by (intro zdiv_mono1) simp_all

lemma year_length: "DayFromYear (y + 1) \<le> DayFromYear y + 367"
proof -
  have "(y + 1 - 1969) div 4 \<le> (y - 1969) div 4 + 1"
    using div_step [of 4 "y - 1969"] by (simp add: algebra_simps)
  moreover have "(y - 1901) div 100 \<le> (y + 1 - 1901) div 100"
    using div_mono1 [of 100 "y - 1901"] by (simp add: algebra_simps)
  moreover have "(y + 1 - 1601) div 400 \<le> (y - 1601) div 400 + 1"
    using div_step [of 400 "y - 1601"] by (simp add: algebra_simps)
  ultimately show ?thesis by (simp add: DayFromYear_def)
qed

lemma InLeapYear_range: "InLeapYear y = 0 \<or> InLeapYear y = 1"
  by (simp add: InLeapYear_def)

lemma month_range:
  assumes "L = 0 \<or> L = 1" and "0 \<le> dwy"
  shows "1 \<le> MonthFromDay L dwy" and "MonthFromDay L dwy \<le> 12"
    and "monthStart L (MonthFromDay L dwy) \<le> dwy"
    and "dwy \<le> 366 \<Longrightarrow> dwy - monthStart L (MonthFromDay L dwy) < 33"
  using assms by (auto simp: MonthFromDay_def monthStart_def)

lemma days_from_civil_inverse:
  "civil_from_days day = (y, m, d) \<Longrightarrow> days_from_civil y m d = day"
  by (auto simp: civil_from_days_def days_from_civil_def Let_def)

lemma civil_fields:
  assumes "civil_from_days day = (y, m, d)"
  shows "1 \<le> m" and "m \<le> 12" and "1 \<le> d" and "d \<le> 33"
    and "DayFromYear y \<le> day" and "day < DayFromYear (y + 1)"
proof -
  from assms have y: "y = YearFromDay day"
    and m: "m = MonthFromDay (InLeapYear y) (day - DayFromYear y)"
    and d: "d = day - DayFromYear y - monthStart (InLeapYear y) m + 1"
    by (auto simp: civil_from_days_def Let_def)
  show lo: "DayFromYear y \<le> day" and hi: "day < DayFromYear (y + 1)"
    using year_bracket [of day] by (simp_all add: y)
  have dwy: "0 \<le> day - DayFromYear y" "day - DayFromYear y \<le> 366"
    using lo hi year_length [of y] by simp_all
  note mr = month_range [OF InLeapYear_range dwy(1), of y]
  show "1 \<le> m" "m \<le> 12" using mr(1,2) by (simp_all add: m)
  show "1 \<le> d" using mr(3) by (simp add: d m)
  show "d \<le> 33" using mr(4) [OF dwy(2)] by (simp add: d m)
qed

lemma length_pad [simp]: "length (pad w n) = w"
  by (induction w arbitrary: n) auto

lemma digit_nth: "0 \<le> d \<Longrightarrow> d \<le> 9 \<Longrightarrow> digit (''0123456789'' ! nat d) = Some d"
proof -
  assume "0 \<le> d" "d \<le> 9"
  then have "d = 0 \<or> d = 1 \<or> d = 2 \<or> d = 3 \<or> d = 4 \<or> d = 5 \<or> d = 6 \<or> d = 7 \<or> d = 8 \<or> d = 9"
    by arith
  then show ?thesis
    by (elim disjE) (simp_all add: digit_def)
qed

lemma digits_append:
  "digits acc (xs @ ys) = (case digits acc xs of None \<Rightarrow> None | Some a \<Rightarrow> digits a ys)"
  by (induction xs arbitrary: acc) (auto split: option.splits)

lemma digits_pad:
  "0 \<le> n \<Longrightarrow> n < 10 ^ w \<Longrightarrow> digits acc (pad w n) = Some (acc * 10 ^ w + n)"
proof (induction w arbitrary: n)
  case 0
  then show ?case by simp
next
  case (Suc w)
  have lo: "10 * (n div 10) \<le> n" by (rule div_lower) simp
  have hi: "n < 10 * (n div 10) + 10" by (rule div_upper) simp
  have p: "n < 10 * 10 ^ w" using Suc.prems(2) by simp
  have q: "0 \<le> n div 10" "n div 10 < 10 ^ w"
    using Suc.prems(1) lo hi p by linarith+
  have r: "0 \<le> n mod 10" "n mod 10 \<le> 9"
    using pos_mod_sign [of 10 n] pos_mod_bound [of 10 n] by linarith+
  have "10 * (acc * 10 ^ w + n div 10) + n mod 10 = acc * 10 ^ Suc w + n"
    using mult_div_mod_eq [of 10 n] by (simp add: algebra_simps)
  then show ?case
    by (simp add: digits_append Suc.IH [OF q] digit_nth [OF r])
qed

lemma digits_pad0: "0 \<le> n \<Longrightarrow> n < 10 ^ w \<Longrightarrow> digits 0 (pad w n) = Some n"
  by (simp add: digits_pad)

lemma two_chars: "length a = 2 \<Longrightarrow> \<exists>x y. a = [x, y]"
  by (cases a; cases "tl a") auto

lemma three_chars: "length a = 3 \<Longrightarrow> \<exists>x y z. a = [x, y, z]"
  by (cases a; cases "tl a"; cases "tl (tl a)") auto

lemma fields_layout:
  assumes "length a = 2" "length b = 2" "length c = 2" "length e = 2" "length f = 2"
    and "length g = 3"
  shows "take 2 (drop 1 (''-'' @ a @ ''-'' @ b @ ''T'' @ c @ '':'' @ e @ '':'' @ f @ ''.'' @ g @ ''Z'')) = a"
    and "take 2 (drop 4 (''-'' @ a @ ''-'' @ b @ ''T'' @ c @ '':'' @ e @ '':'' @ f @ ''.'' @ g @ ''Z'')) = b"
    and "take 2 (drop 7 (''-'' @ a @ ''-'' @ b @ ''T'' @ c @ '':'' @ e @ '':'' @ f @ ''.'' @ g @ ''Z'')) = c"
    and "take 2 (drop 10 (''-'' @ a @ ''-'' @ b @ ''T'' @ c @ '':'' @ e @ '':'' @ f @ ''.'' @ g @ ''Z'')) = e"
    and "take 2 (drop 13 (''-'' @ a @ ''-'' @ b @ ''T'' @ c @ '':'' @ e @ '':'' @ f @ ''.'' @ g @ ''Z'')) = f"
    and "take 3 (drop 16 (''-'' @ a @ ''-'' @ b @ ''T'' @ c @ '':'' @ e @ '':'' @ f @ ''.'' @ g @ ''Z'')) = g"
    and "map (\<lambda>i. (''-'' @ a @ ''-'' @ b @ ''T'' @ c @ '':'' @ e @ '':'' @ f @ ''.'' @ g @ ''Z'') ! i)
           [0, 3, 6, 9, 12, 15, 19] = ''--T::.Z''"
proof -
  from assms obtain a1 a2 b1 b2 c1 c2 e1 e2 f1 f2 g1 g2 g3
    where "a = [a1, a2]" "b = [b1, b2]" "c = [c1, c2]" "e = [e1, e2]" "f = [f1, f2]"
      "g = [g1, g2, g3]"
    by (metis two_chars three_chars)
  then show
    "take 2 (drop 1 (''-'' @ a @ ''-'' @ b @ ''T'' @ c @ '':'' @ e @ '':'' @ f @ ''.'' @ g @ ''Z'')) = a"
    "take 2 (drop 4 (''-'' @ a @ ''-'' @ b @ ''T'' @ c @ '':'' @ e @ '':'' @ f @ ''.'' @ g @ ''Z'')) = b"
    "take 2 (drop 7 (''-'' @ a @ ''-'' @ b @ ''T'' @ c @ '':'' @ e @ '':'' @ f @ ''.'' @ g @ ''Z'')) = c"
    "take 2 (drop 10 (''-'' @ a @ ''-'' @ b @ ''T'' @ c @ '':'' @ e @ '':'' @ f @ ''.'' @ g @ ''Z'')) = e"
    "take 2 (drop 13 (''-'' @ a @ ''-'' @ b @ ''T'' @ c @ '':'' @ e @ '':'' @ f @ ''.'' @ g @ ''Z'')) = f"
    "take 3 (drop 16 (''-'' @ a @ ''-'' @ b @ ''T'' @ c @ '':'' @ e @ '':'' @ f @ ''.'' @ g @ ''Z'')) = g"
    "map (\<lambda>i. (''-'' @ a @ ''-'' @ b @ ''T'' @ c @ '':'' @ e @ '':'' @ f @ ''.'' @ g @ ''Z'') ! i)
           [0, 3, 6, 9, 12, 15, 19] = ''--T::.Z''"
    by simp_all
qed

lemma parse_fields_printed:
  assumes m: "0 \<le> m" "m < 100" and d: "0 \<le> d" "d < 100"
    and hh: "0 \<le> hh" "hh \<le> 23" and mi: "0 \<le> mi" "mi \<le> 59"
    and ss: "0 \<le> ss" "ss \<le> 59" and ms: "0 \<le> ms" "ms < 1000"
    and civil: "civil_from_days (days_from_civil y m d) = (y, m, d)"
  shows "parse_fields y (''-'' @ pad 2 m @ ''-'' @ pad 2 d @ ''T'' @ pad 2 hh @ '':''
                          @ pad 2 mi @ '':'' @ pad 2 ss @ ''.'' @ pad 3 ms @ ''Z'')
         = Finite (of_int (days_from_civil y m d * 86400000 + hh * 3600000
                            + mi * 60000 + ss * 1000 + ms))"
proof -
  note lay = fields_layout [of "pad 2 m" "pad 2 d" "pad 2 hh" "pad 2 mi" "pad 2 ss" "pad 3 ms",
      OF length_pad length_pad length_pad length_pad length_pad length_pad]
  have dg: "digits 0 (pad 2 m) = Some m" "digits 0 (pad 2 d) = Some d"
    "digits 0 (pad 2 hh) = Some hh" "digits 0 (pad 2 mi) = Some mi"
    "digits 0 (pad 2 ss) = Some ss" "digits 0 (pad 3 ms) = Some ms"
    using assms by (simp_all add: digits_pad0)
  show ?thesis
    unfolding parse_fields_def lay dg using hh mi ss civil by simp
qed

lemma time_of_day:
  fixes r :: int
  shows "(r div 3600000) * 3600000 + (r div 60000 mod 60) * 60000 + (r div 1000 mod 60) * 1000
           + r mod 1000 = r"
proof -
  have a: "r div 60000 = r div 1000 div 60" and b: "r div 3600000 = r div 60000 div 60"
    by (simp_all add: zdiv_zmult2_eq [symmetric])
  have "r = 1000 * (r div 1000) + r mod 1000" by simp
  moreover have "r div 1000 = 60 * (r div 60000) + r div 1000 mod 60"
    unfolding a by simp
  moreover have "r div 60000 = 60 * (r div 3600000) + r div 60000 mod 60"
    unfolding b by simp
  ultimately show ?thesis by linarith
qed

lemma time_fields:
  fixes r :: int
  assumes "0 \<le> r" "r < 86400000"
  shows "0 \<le> r div 3600000" "r div 3600000 \<le> 23"
    and "0 \<le> r div 60000 mod 60" "r div 60000 mod 60 \<le> 59"
    and "0 \<le> r div 1000 mod 60" "r div 1000 mod 60 \<le> 59"
    and "0 \<le> r mod 1000" "r mod 1000 < 1000"
proof -
  have "3600000 * (r div 3600000) \<le> r" "r < 3600000 * (r div 3600000) + 3600000"
    by (rule div_lower, simp) (rule div_upper, simp)
  then show "0 \<le> r div 3600000" "r div 3600000 \<le> 23"
    using assms by linarith+
  show "0 \<le> r div 60000 mod 60" "r div 60000 mod 60 \<le> 59"
    using pos_mod_sign [of 60 "r div 60000"] pos_mod_bound [of 60 "r div 60000"] by linarith+
  show "0 \<le> r div 1000 mod 60" "r div 1000 mod 60 \<le> 59"
    using pos_mod_sign [of 60 "r div 1000"] pos_mod_bound [of 60 "r div 1000"] by linarith+
  show "0 \<le> r mod 1000" "r mod 1000 < 1000"
    by simp_all
qed

lemma year_range:
  assumes "\<bar>day\<bar> \<le> 100000000" and "civil_from_days day = (y, m, d)"
  shows "\<bar>y\<bar> < 1000000"
proof -
  define e where "e = (400 * day) div 146097"
  have "146097 * e \<le> 400 * day" "400 * day < 146097 * e + 146097"
    unfolding e_def by (rule div_lower, simp) (rule div_upper, simp)
  then have e: "- 300000 < e" "e < 300000"
    using assms(1) by linarith+
  have "y = YearFromDay day" using assms(2) by (auto simp: civil_from_days_def Let_def)
  then have "y = 1970 + e + 1 \<or> y = 1970 + e \<or> y = 1970 + e - 1"
    by (auto simp: YearFromDay_def Let_def e_def)
  then show ?thesis using e by linarith
qed

lemma day_range:
  fixes t :: int
  assumes "\<bar>t\<bar> \<le> 8640000000000000"
  shows "\<bar>t div 86400000\<bar> \<le> 100000000"
proof -
  have "86400000 * (t div 86400000) \<le> t" "t < 86400000 * (t div 86400000) + 86400000"
    by (rule div_lower, simp) (rule div_upper, simp)
  then show ?thesis using assms by linarith
qed

text \<open>
  Reading what was printed: for every time value a \<^verbatim>\<open>Date\<close> can hold, \<open>parse_isoString\<close>
  gives back the time value that \<open>isoString_ecma\<close> printed.
\<close>

lemma parse_isoString_printed:
  assumes "\<bar>t\<bar> \<le> 8640000000000000"
  shows "parse_isoString (isoString_ecma t) = Finite (of_int t)"
proof -
  define day r where "day = t div 86400000" and "r = t mod 86400000"
  obtain y m d where c: "civil_from_days day = (y, m, d)"
    by (cases "civil_from_days day") auto
  have t: "t = day * 86400000 + r" by (simp add: day_def r_def)
  have r: "0 \<le> r" "r < 86400000" by (simp_all add: r_def)
  note tf = time_fields [OF r]
  note cf = civil_fields [OF c]
  have days: "days_from_civil y m d = day" using c by (rule days_from_civil_inverse)
  have civil: "civil_from_days (days_from_civil y m d) = (y, m, d)" by (simp add: days c)
  have md: "0 \<le> m" "m < 100" "0 \<le> d" "d < 100" using cf(1-4) by linarith+
  let ?rest = "''-'' @ pad 2 m @ ''-'' @ pad 2 d @ ''T'' @ pad 2 (r div 3600000) @ '':''
                 @ pad 2 (r div 60000 mod 60) @ '':'' @ pad 2 (r div 1000 mod 60) @ ''.''
                 @ pad 3 (r mod 1000) @ ''Z''"
  have rest: "parse_fields y ?rest = Finite (of_int t)"
    using parse_fields_printed [OF md tf civil] time_of_day [of r]
    by (simp add: days t)
  have len: "length ?rest = 20" by simp
  have yr: "\<bar>y\<bar> < 1000000"
    using day_range [OF assms] c unfolding day_def [symmetric] by (rule year_range)
  have iso: "isoString_ecma t =
      (if 0 \<le> y \<and> y \<le> 9999 then pad 4 y else (if y < 0 then ''-'' else ''+'') @ pad 6 \<bar>y\<bar>)
      @ ?rest"
    unfolding isoString_ecma_def Let_def day_def [symmetric] r_def [symmetric] c by simp
  show ?thesis
  proof (cases "0 \<le> y \<and> y \<le> 9999")
    case True
    then have dy: "digits 0 (pad 4 y) = Some y" by (simp add: digits_pad0)
    have s: "isoString_ecma t = pad 4 y @ ?rest" using True iso by simp
    have l: "length (pad 4 y @ ?rest) = 24" by simp
    have parts: "take 4 (pad 4 y @ ?rest) = pad 4 y" "drop 4 (pad 4 y @ ?rest) = ?rest"
      by simp_all
    have "parse_isoString (pad 4 y @ ?rest) = parse_fields y ?rest"
      unfolding parse_isoString_def l parts dy by simp
    then show ?thesis by (simp only: s rest)
  next
    case False
    let ?sign = "if y < 0 then CHR ''-'' else CHR ''+''"
    have dy: "digits 0 (pad 6 \<bar>y\<bar>) = Some \<bar>y\<bar>" using yr by (simp add: digits_pad0)
    have s: "isoString_ecma t = ?sign # pad 6 \<bar>y\<bar> @ ?rest" using False iso by simp
    have l: "length (?sign # pad 6 \<bar>y\<bar> @ ?rest) = 27" by simp
    have parts: "hd (?sign # pad 6 \<bar>y\<bar> @ ?rest) = ?sign"
      "take 6 (tl (?sign # pad 6 \<bar>y\<bar> @ ?rest)) = pad 6 \<bar>y\<bar>"
      "drop 7 (?sign # pad 6 \<bar>y\<bar> @ ?rest) = ?rest"
      by simp_all
    have y0: "y \<noteq> 0" using False by auto
    have val: "(if ?sign = CHR ''-'' then - \<bar>y\<bar> else \<bar>y\<bar>) = y" by auto
    have "parse_isoString (?sign # pad 6 \<bar>y\<bar> @ ?rest) = parse_fields y ?rest"
      unfolding parse_isoString_def l parts dy using y0 val by auto
    then show ?thesis by (simp only: s rest)
  qed
qed

lemma newDate_printed:
  assumes "\<bar>ms\<bar> \<le> 8640000000000000"
  shows "newDate (ecma num str) (JSStr (isoString_ecma ms)) = DateAt ms"
proof -
  have "\<not> \<bar>rat_of_int ms\<bar> > 8640000000000000"
  proof -
    have "\<bar>rat_of_int ms\<bar> = rat_of_int \<bar>ms\<bar>" by simp
    also have "\<dots> \<le> rat_of_int 8640000000000000" using assms by (simp only: of_int_le_iff)
    finally show ?thesis by simp
  qed
  then have "timeClip (Finite (rat_of_int ms)) = DateAt ms" by simp
  then show ?thesis
    by (simp add: ecma_def parse_isoString_printed [OF assms])
qed

section \<open>Writing, then reading\<close>

lemma cell_roundtrip:
  assumes "accepted t v"
  shows "t \<noteq> TDate \<Longrightarrow> normalizeValue rt (Some t) (storedCell isoStr (Some t) v) = v"
    and "t = TDate \<Longrightarrow> v = JSNull \<Longrightarrow>
           normalizeValue rt (Some t) (storedCell isoStr (Some t) v) = JSNull"
    and "t = TDate \<Longrightarrow> v \<noteq> JSNull \<Longrightarrow> \<exists>ms. v = JSDate (DateAt ms)"
  using assms
  by (cases t; cases v;
      auto simp: normalizeBoolean_def normalizeString_def normalizeNumber_def normalizeDate_def
        elim: accepted.elims)+

lemma date_roundtrip:
  assumes "\<bar>ms\<bar> \<le> 8640000000000000"
  shows "normalizeValue (ecma num str) (Some TDate)
           (storedCell isoString_ecma (Some TDate) (JSDate (DateAt ms))) = JSDate (DateAt ms)"
  by (simp add: normalizeDate_def newDate_printed [OF assms] del: newDate.simps)

text \<open>
  What normalization returns for a cell of a batch that validation accepted, whatever
  the runtime: the normalized stored form of a cell that is accepted for its column.
\<close>

lemma normalize_validated_cell:
  assumes cols: "getColumns co db dataStoreId = columns"
    and wf: "\<forall>x \<in> set rows. wf_row (h x)"
    and ok: "validateRows isoStr co db dataStoreId rows h = (Inr (), h')"
    and i: "i < length rows" and cell: "(k, v) \<in> set (h (rows ! i))"
  shows "\<exists>t. typeMap columns k = Some t \<and> accepted t v
           \<and> getProp (normalizeRows rt (map h' rows) columns ! i) k
               = normalizeValue rt (Some t) (storedCell isoStr (Some t) v)"
proof -
  let ?x = "rows ! i"
  have x: "?x \<in> set rows" using i by simp
  have ne: "columns \<noteq> []"
    using ok cols by (auto simp: validateRows_def)
  from ok have b: "fst (validateBatch isoStr columns rows h) = Inr ()"
    by (simp add: validateRows_nonempty [OF cols ne])
  have h': "h' = storedHeap isoStr columns (set rows) h"
    using validateBatch_passed(1) [OF wf b] ok
    by (simp add: validateRows_nonempty [OF cols ne])
  have wfx: "wf_row (h ?x)" using wf x by simp
  have "fst (validateRow isoStr columns (h ?x)) = Inr ()"
    using validateBatch_passed(2) [OF wf b] x by simp
  moreover have "k \<in> set (keys (h ?x))" using cell by (force simp: keys_def)
  ultimately have "acceptedKey columns (h ?x) k"
    by (simp add: validateRow_Inr_iff(1) [OF wfx])
  moreover have g: "getProp (h ?x) k = v" using wfx cell by (rule getProp_entry)
  ultimately obtain t where t: "typeMap columns k = Some t" and acc: "accepted t v"
    by (auto simp: acceptedKey_def split: option.splits)
  have hx: "h' ?x = storedRow isoStr columns (h ?x)"
    using x by (simp add: h' storedHeap_def)
  have in_stored: "(k, storedCell isoStr (typeMap columns k) v) \<in> set (storedRow isoStr columns (h ?x))"
    using cell by (force simp: storedRow_def)
  have wfs: "wf_row (storedRow isoStr columns (h ?x))" using wfx by simp
  have "normalizeRows rt (map h' rows) columns ! i
          = normalizeRow rt (typeMap columns) (storedRow isoStr columns (h ?x))"
    using i by (simp add: normalizeRows_def hx)
  then have "getProp (normalizeRows rt (map h' rows) columns ! i) k
               = normalizeValue rt (Some t) (storedCell isoStr (Some t) v)"
    using getProp_map_entries [OF wfs in_stored, of "\<lambda>k v. normalizeValue rt (typeMap columns k) v"]
    by (simp add: normalizeRow_map [OF wfs] t)
  with t acc show ?thesis by (intro exI conjI)
qed

text \<open>
  C6. Round trip, with the runtime's \<open>toISOString\<close> and \<open>Date.parse\<close> as ECMA-262 defines
  them on the strings \<open>toISOString\<close> prints. For every batch that \<open>validateRows\<close> accepts,
  normalizing the rows as validation left them gives, for each cell of a string, number
  or boolean column, the value the row held; for a \<open>null\<close> under a date column, \<open>null\<close>;
  and for any other cell of a date column, which is a valid date, a valid date: the
  date the row held, its time value being one a \<open>Date\<close> can hold (at most 8.64e15 ms
  from the epoch either way).
\<close>

theorem validate_then_normalize:
  assumes cols: "getColumns co db dataStoreId = columns"
    and wf: "\<forall>x \<in> set rows. wf_row (h x)"
    and ok: "validateRows isoString_ecma co db dataStoreId rows h = (Inr (), h')"
    and i: "i < length rows" and cell: "(k, v) \<in> set (h (rows ! i))"
  shows "typeMap columns k \<noteq> None
       \<and> (typeMap columns k \<in> {Some TString, Some TNumber, Some TBoolean}
            \<longrightarrow> getProp (normalizeRows (ecma num str) (map h' rows) columns ! i) k = v)
       \<and> (typeMap columns k = Some TDate \<and> v = JSNull
            \<longrightarrow> getProp (normalizeRows (ecma num str) (map h' rows) columns ! i) k = JSNull)
       \<and> (typeMap columns k = Some TDate \<and> v \<noteq> JSNull
            \<longrightarrow> (\<exists>ms. v = JSDate (DateAt ms)
                  \<and> (\<bar>ms\<bar> \<le> 8640000000000000
                      \<longrightarrow> getProp (normalizeRows (ecma num str) (map h' rows) columns ! i) k
                            = JSDate (DateAt ms))))"
proof -
  let ?out = "getProp (normalizeRows (ecma num str) (map h' rows) columns ! i) k"
  from normalize_validated_cell [OF cols wf ok i cell, of "ecma num str"]
  obtain t where t: "typeMap columns k = Some t" and acc: "accepted t v"
    and out: "?out = normalizeValue (ecma num str) (Some t) (storedCell isoString_ecma (Some t) v)"
    by (elim exE conjE)
  have c1: "typeMap columns k \<noteq> None" by (simp add: t)
  have c2: "typeMap columns k \<in> {Some TString, Some TNumber, Some TBoolean} \<longrightarrow> ?out = v"
    using cell_roundtrip(1) [OF acc, of "ecma num str" isoString_ecma] by (auto simp: t out)
  have c3: "typeMap columns k = Some TDate \<and> v = JSNull \<longrightarrow> ?out = JSNull"
    using cell_roundtrip(2) [OF acc, of "ecma num str" isoString_ecma] by (auto simp: t out)
  have c4: "typeMap columns k = Some TDate \<and> v \<noteq> JSNull
            \<longrightarrow> (\<exists>ms. v = JSDate (DateAt ms)
                  \<and> (\<bar>ms\<bar> \<le> 8640000000000000 \<longrightarrow> ?out = JSDate (DateAt ms)))"
  proof (intro impI, elim conjE)
    assume td: "typeMap columns k = Some TDate" and nn: "v \<noteq> JSNull"
    then have tt: "t = TDate" using t by simp
    from cell_roundtrip(3) [OF acc tt nn] obtain ms where v: "v = JSDate (DateAt ms)"
      by (elim exE)
    have "\<bar>ms\<bar> \<le> 8640000000000000 \<longrightarrow> ?out = JSDate (DateAt ms)"
      using date_roundtrip [of ms num str] by (simp add: out tt v)
    with v show "\<exists>ms. v = JSDate (DateAt ms)
                  \<and> (\<bar>ms\<bar> \<le> 8640000000000000 \<longrightarrow> ?out = JSDate (DateAt ms))"
      by (intro exI conjI)
  qed
  show ?thesis by (intro conjI c1 c2 c3 c4)
qed

theorem validate_then_normalize_witness:
  "\<forall>num str.
     getColumns orders_co [] ''orders'' = orders_columns \<and> wf_row canonical_row
     \<and> validateRows isoString_ecma orders_co [] ''orders'' [0] (heap_of [canonical_row])
         = (Inr (), validated_batch)
     \<and> (0 :: nat) < length [0 :: nat]
     \<and> (''at'', JSDate (DateAt 1700000000123)) \<in> set canonical_row
     \<and> (''paid'', JSBool True) \<in> set canonical_row
     \<and> typeMap orders_columns ''at'' = Some TDate
     \<and> typeMap orders_columns ''paid'' = Some TBoolean
     \<and> \<bar>1700000000123 :: int\<bar> \<le> 8640000000000000
     \<and> getProp (normalizeRows (ecma num str) (map validated_batch [0]) orders_columns ! 0) ''at''
         = JSDate (DateAt 1700000000123)
     \<and> getProp (normalizeRows (ecma num str) (map validated_batch [0]) orders_columns ! 0) ''paid''
         = JSBool True
     \<and> validated_batch 0 = stored_row"
proof (intro allI)
  fix num str
  let ?h = "heap_of [canonical_row]"
  have cols: "getColumns orders_co [] ''orders'' = orders_columns"
    by (simp add: orders_co_def)
  have wfc: "wf_row canonical_row" by code_simp
  have wf: "\<forall>x \<in> set [0]. wf_row (?h x)" using wfc by (simp add: heap_of_def)
  have "fst (validateRows isoString_ecma orders_co [] ''orders'' [0] ?h) = Inr ()"
    by code_simp
  then have ok: "validateRows isoString_ecma orders_co [] ''orders'' [0] ?h = (Inr (), validated_batch)"
    by (simp add: prod_eq_iff validated_batch_def)
  have i: "(0 :: nat) < length [0 :: nat]" by simp
  have cells: "(''at'', JSDate (DateAt 1700000000123)) \<in> set canonical_row"
    "(''paid'', JSBool True) \<in> set canonical_row"
    by (simp_all add: canonical_row_def)
  have cell_at: "(''at'', JSDate (DateAt 1700000000123)) \<in> set (?h ([0] ! 0))"
    and cell_paid: "(''paid'', JSBool True) \<in> set (?h ([0] ! 0))"
    by (simp_all add: heap_of_def canonical_row_def)
  have range: "\<bar>1700000000123 :: int\<bar> \<le> 8640000000000000" by simp
  have a: "getProp (normalizeRows (ecma num str) (map validated_batch [0]) orders_columns ! 0) ''at''
             = JSDate (DateAt 1700000000123)"
    using validate_then_normalize [OF cols wf ok i cell_at, of num str] typeMap_orders
    by simp
  have b: "getProp (normalizeRows (ecma num str) (map validated_batch [0]) orders_columns ! 0) ''paid''
             = JSBool True"
    using validate_then_normalize [OF cols wf ok i cell_paid, of num str] typeMap_orders
    by simp
  have s: "validated_batch 0 = stored_row" by code_simp
  show "getColumns orders_co [] ''orders'' = orders_columns \<and> wf_row canonical_row
     \<and> validateRows isoString_ecma orders_co [] ''orders'' [0] (heap_of [canonical_row])
         = (Inr (), validated_batch)
     \<and> (0 :: nat) < length [0 :: nat]
     \<and> (''at'', JSDate (DateAt 1700000000123)) \<in> set canonical_row
     \<and> (''paid'', JSBool True) \<in> set canonical_row
     \<and> typeMap orders_columns ''at'' = Some TDate
     \<and> typeMap orders_columns ''paid'' = Some TBoolean
     \<and> \<bar>1700000000123 :: int\<bar> \<le> 8640000000000000
     \<and> getProp (normalizeRows (ecma num str) (map validated_batch [0]) orders_columns ! 0) ''at''
         = JSDate (DateAt 1700000000123)
     \<and> getProp (normalizeRows (ecma num str) (map validated_batch [0]) orders_columns ! 0) ''paid''
         = JSBool True
     \<and> validated_batch 0 = stored_row"
    by (intro conjI cols wfc ok i cells typeMap_orders range a b s)
qed

end
